theory Spec2Isabelle
  imports Complex_Main "HOL-Library.AList" "HOL-Library.Multiset"
begin

section \<open>Routing-protocol energy simulator (LEACH and PEGASIS)\<close>

text \<open>
  A shallow embedding of \<^verbatim>\<open>src/simulation/routingAlgorithms/leach.ts\<close> and
  \<^verbatim>\<open>src/simulation/routingAlgorithms/pegasis.ts\<close>.

  Conventions of the embedding:
  \<^item> a JavaScript \<^verbatim>\<open>number\<close> that holds an energy, a distance or a data size is a
    \<^typ>\<open>real\<close>, and the arithmetic of a round is exact (\<^verbatim>\<open>NaN\<close> and \<^verbatim>\<open>Infinity\<close> of
    IEEE doubles are not modelled); the round counter and \<^verbatim>\<open>config.rounds\<close> are
    \<^typ>\<open>int\<close>;
  \<^item> one addition is rounded: the running total
    \<^verbatim>\<open>totalEnergyConsumption += energyUsage[id]\<close> is added with \<open>jsAdd\<close>, the binary64
    addition (round to nearest, ties to even), since the value of this total depends on
    the order of the additions. On doubles \<open>jsAdd\<close> is the \<^verbatim>\<open>+\<close> of JavaScript, overflow
    to \<^verbatim>\<open>Infinity\<close> apart;
  \<^item> a \<^verbatim>\<open>Record<string, T>\<close> is an association list in insertion order; reading a
    missing key gives \<^verbatim>\<open>undefined\<close>, which is \<^term>\<open>None\<close>. The three records of the
    simulators are plain objects keyed by node ids, and the association list is exact for
    an id that is not the name of a member of \<^verbatim>\<open>Object.prototype\<close>: for the id
    \<^verbatim>\<open>__proto__\<close> an assignment stores nothing, and for \<^verbatim>\<open>constructor\<close>, \<^verbatim>\<open>toString\<close> and
    the like \<^verbatim>\<open>energyUsage[id] || 0\<close> reads the inherited function. The properties that
    depend on what is stored under an id assume \<open>plainIds\<close>;
  \<^item> a value that may be \<^verbatim>\<open>undefined\<close> is an \<^typ>\<open>'a option\<close>; used as a property
    key, \<^verbatim>\<open>undefined\<close> is the string \<^verbatim>\<open>"undefined"\<close>;
  \<^item> reading a property of \<^verbatim>\<open>undefined\<close> throws; the thrown exception is
    \<^term>\<open>Inl TypeError\<close>;
  \<^item> \<^verbatim>\<open>Math.random()\<close> is an oracle \<open>rnd :: nat \<Rightarrow> real\<close> read at a counter; the
    value drawn is \<^term>\<open>frac (rnd i)\<close>, which lies in \<open>[0, 1)\<close> as the JavaScript
    function guarantees (and is \<open>rnd i\<close> itself when that already lies there);
  \<^item> \<^verbatim>\<open>for (const id in energyUsage)\<close> enumerates the keys that are array indices first,
    in ascending order, and the other keys in insertion order; the association list is
    read in insertion order, which is the order of the loop when no id is made of digits
    only (\<open>insertionOrdered\<close>).
\<close>

subsection \<open>Nodes and distance\<close>

datatype NodeType = Sensor | Base | Relay

record LatLng =
  lat :: real
  lng :: real

text \<open>
  \<^verbatim>\<open>WSNNode\<close> of \<^verbatim>\<open>types/node.ts\<close>. The simulators read \<^verbatim>\<open>id\<close>, \<^verbatim>\<open>position\<close> and
  \<^verbatim>\<open>type\<close> only; the remaining fields (\<^verbatim>\<open>name\<close>, \<^verbatim>\<open>batteryLevel\<close>, \<^verbatim>\<open>status\<close>,
  \<^verbatim>\<open>lastReading\<close>, \<^verbatim>\<open>energyUsage\<close>) live in the record's extension slot. The fields
  \<^verbatim>\<open>id\<close> and \<^verbatim>\<open>type\<close> are \<open>node_id\<close> and \<open>node_type\<close> here, since \<open>id\<close> is the identity
  function of HOL.
\<close>

record WSNNode =
  node_id :: string
  position :: LatLng
  node_type :: NodeType

definition calculateDistance :: "LatLng \<Rightarrow> LatLng \<Rightarrow> real" where
  "calculateDistance pos1 pos2 =
     (let latDiff = (lat pos1 - lat pos2) * 111;
          lngDiff = (lng pos1 - lng pos2) * 111 * cos (lat pos1 * (pi / 180))
      in sqrt (latDiff * latDiff + lngDiff * lngDiff))"

datatype error = TypeError

text \<open>\<^verbatim>\<open>nodes.find(n => n.id === k)\<close>; no node's id is \<^verbatim>\<open>undefined\<close>.\<close>

definition findNode :: "'a WSNNode_scheme list \<Rightarrow> string option \<Rightarrow> 'a WSNNode_scheme option" where
  "findNode nodes k =
     (case k of None \<Rightarrow> None | Some i \<Rightarrow> List.find (\<lambda>n. node_id n = i) nodes)"

definition key :: "string option \<Rightarrow> string" where
  "key k = (case k of None \<Rightarrow> ''undefined'' | Some i \<Rightarrow> i)"

subsection \<open>Energy ledger and per-round usage\<close>

type_synonym ledger = "(string \<times> real) list"

text \<open>\<^verbatim>\<open>nodeEnergy[k] <= 0\<close> and \<^verbatim>\<open>nodeEnergy[k] > 0\<close>: both false on \<^verbatim>\<open>undefined\<close>.\<close>

definition le0 :: "ledger \<Rightarrow> string \<Rightarrow> bool" where
  "le0 e k = (case map_of e k of None \<Rightarrow> False | Some v \<Rightarrow> v \<le> 0)"

definition gt0 :: "ledger \<Rightarrow> string \<Rightarrow> bool" where
  "gt0 e k = (case map_of e k of None \<Rightarrow> False | Some v \<Rightarrow> 0 < v)"

text \<open>
  \<^verbatim>\<open>nodeEnergy[k] -= c\<close>. On a missing key JavaScript would store \<^verbatim>\<open>NaN\<close>, which
  compares like \<^verbatim>\<open>undefined\<close>; the ledger is left without the key. Every key the
  simulators spend on is the id of a node found in the node list, and all of those are
  initialised (\<open>initEnergy\<close>).
\<close>

definition spend :: "ledger \<Rightarrow> string \<Rightarrow> real \<Rightarrow> ledger" where
  "spend e k c = (case map_of e k of None \<Rightarrow> e | Some v \<Rightarrow> AList.update k (v - c) e)"

text \<open>\<^verbatim>\<open>energyUsage[k] = (energyUsage[k] || 0) + c\<close>\<close>

definition charge :: "ledger \<Rightarrow> string \<Rightarrow> real \<Rightarrow> ledger" where
  "charge u k c = AList.update k ((case map_of u k of None \<Rightarrow> 0 | Some v \<Rightarrow> v) + c) u"

text \<open>\<^verbatim>\<open>nodes.forEach(node => { nodeEnergy[node.id] = config.initialEnergy; })\<close>\<close>

definition initEnergy :: "'a WSNNode_scheme list \<Rightarrow> real \<Rightarrow> ledger" where
  "initEnergy nodes e0 = fold (\<lambda>node e. AList.update (node_id node) e0 e) nodes []"

text \<open>\<^verbatim>\<open>nodes.filter(node => nodeEnergy[node.id] > 0).length\<close>\<close>

definition countAlive :: "'a WSNNode_scheme list \<Rightarrow> ledger \<Rightarrow> nat" where
  "countAlive nodes e = length (filter (\<lambda>node. gt0 e (node_id node)) nodes)"

text \<open>
  The variables a round mutates: \<^verbatim>\<open>nodeEnergy\<close>, \<^verbatim>\<open>energyUsage\<close> and
  \<^verbatim>\<open>roundDataTransmitted\<close>.
\<close>

type_synonym acct = "ledger \<times> ledger \<times> real"

text \<open>A \<^verbatim>\<open>for\<close> loop whose body may throw: the first exception ends the loop.\<close>

fun forEachE :: "('a \<Rightarrow> 's \<Rightarrow> error + 's) \<Rightarrow> 'a list \<Rightarrow> 's \<Rightarrow> error + 's" where
  "forEachE f [] s = Inr s"
| "forEachE f (x # xs) s = (case f x s of Inl err \<Rightarrow> Inl err | Inr s' \<Rightarrow> forEachE f xs s')"

subsection \<open>Configurations, round records, results\<close>

text \<open>
  \<^verbatim>\<open>LEACHConfig\<close> and \<^verbatim>\<open>PEGASISConfig\<close> share five fields, \<^verbatim>\<open>LEACHRound\<close> and
  \<^verbatim>\<open>PEGASISRound\<close> four; the shared part is the parent record.
\<close>

record Config =
  rounds :: int
  initialEnergy :: real
  transmitEnergy :: real
  receiveEnergy :: real
  dataSize :: real

record LEACHConfig = Config +
  probabilityThreshold :: real

datatype LeaderSelectionMethod = roundRobin | energyBased

record PEGASISConfig = Config +
  leaderSelectionMethod :: LeaderSelectionMethod

record Round =
  roundNumber :: int
  energyUsage :: ledger
  nodesAlive :: nat
  dataTransmitted :: real

record LEACHRound = Round +
  clusterHeads :: "string list"
  clusterMembers :: "(string \<times> string list) list"

text \<open>\<^verbatim>\<open>leader\<close> is \<^verbatim>\<open>undefined\<close> (\<^term>\<open>None\<close>) when the chain is empty.\<close>

record PEGASISRound = Round +
  chain :: "string list"
  leader :: "string option"

text \<open>
  \<^verbatim>\<open>averageEnergy\<close> is \<^verbatim>\<open>totalRemainingEnergy / nodes.length\<close>, which is \<^verbatim>\<open>NaN\<close>
  (\<^term>\<open>None\<close>) for an empty node list. The field \<^verbatim>\<open>rounds\<close> of a result is
  \<open>rounds_log\<close>, to keep it apart from \<^verbatim>\<open>config.rounds\<close>.
\<close>

record Metrics =
  energyConsumption :: real
  networkLifetime :: int
  dataDelivered :: real
  averageEnergy :: "real option"

record 'r SimulationResult =
  rounds_log :: "'r list"
  metrics :: Metrics

text \<open>The local variables of a run that outlive a round.\<close>

record 'r RunState =
  s_nodeEnergy :: ledger
  s_rounds :: "'r list"
  s_totalEnergyConsumption :: real
  s_dataDelivered :: real
  s_networkDied :: bool
  s_networkLifetime :: int

definition initState :: "'a WSNNode_scheme list \<Rightarrow> 'c Config_scheme \<Rightarrow> 'r RunState" where
  "initState nodes config =
     \<lparr> s_nodeEnergy = initEnergy nodes (initialEnergy config),
       s_rounds = [],
       s_totalEnergyConsumption = 0,
       s_dataDelivered = 0,
       s_networkDied = False,
       s_networkLifetime = rounds config \<rparr>"

text \<open>
  The \<^verbatim>\<open>+\<close> of two doubles: the exact sum, rounded to the nearest double, to the one with
  the even significand on a tie. The doubles around \<open>x\<close> are the integer multiples of
  \<open>ulp x\<close>, which is \<^verbatim>\<open>2^(e-52)\<close> for \<^verbatim>\<open>2^e <= |x| < 2^(e+1)\<close>, and \<^verbatim>\<open>2^(-1074)\<close> for
  \<^verbatim>\<open>|x| < 2^(-1022)\<close>.
\<close>

definition roundHalfEven :: "real \<Rightarrow> int" where
  "roundHalfEven q =
     (let f = \<lfloor>q\<rfloor>; d = q - of_int f
      in if d < 1 / 2 then f else if 1 / 2 < d then f + 1 else if even f then f else f + 1)"

definition ulp :: "real \<Rightarrow> real" where
  "ulp x = 2 powr (of_int (max \<lfloor>log 2 \<bar>x\<bar>\<rfloor> (- 1022)) - 52)"

definition roundDouble :: "real \<Rightarrow> real" where
  "roundDouble x = (if x = 0 then 0 else of_int (roundHalfEven (x / ulp x)) * ulp x)"

definition jsAdd :: "real \<Rightarrow> real \<Rightarrow> real" where
  "jsAdd x y = roundDouble (x + y)"

text \<open>
  The end of a round's body, the same in both files: the lifetime is fixed at the first
  round whose alive count is below the node count, the round is pushed, the data is
  added to its total, and \<^verbatim>\<open>for (const id in energyUsage)\<close> adds the energy used, value
  by value, to the running total.
\<close>

definition closeRound ::
  "'a WSNNode_scheme list \<Rightarrow> int \<Rightarrow> 'r \<Rightarrow> acct \<Rightarrow> ('r, 'z) RunState_scheme \<Rightarrow> ('r, 'z) RunState_scheme"
where
  "closeRound nodes rno rec st s =
     (case st of (e, u, d) \<Rightarrow>
        let died = (countAlive nodes e < length nodes \<and> \<not> s_networkDied s)
        in s \<lparr> s_nodeEnergy := e,
               s_networkLifetime := (if died then rno else s_networkLifetime s),
               s_networkDied := (if died then True else s_networkDied s),
               s_rounds := s_rounds s @ [rec],
               s_dataDelivered := s_dataDelivered s + d,
               s_totalEnergyConsumption :=
                 fold (\<lambda>kv t. jsAdd t (snd kv)) u (s_totalEnergyConsumption s) \<rparr>)"

definition finish ::
  "'a WSNNode_scheme list \<Rightarrow> ('r, 'z) RunState_scheme \<Rightarrow> 'r SimulationResult" where
  "finish nodes s =
     \<lparr> rounds_log = s_rounds s,
       metrics = \<lparr> energyConsumption = s_totalEnergyConsumption s,
                   networkLifetime = s_networkLifetime s,
                   dataDelivered = s_dataDelivered s,
                   averageEnergy =
                     (if nodes = [] then None
                      else Some (fold (\<lambda>kv t. t + snd kv) (s_nodeEnergy s) 0 / real (length nodes))) \<rparr> \<rparr>"

subsection \<open>PEGASIS\<close>

text \<open>
  The inner \<^verbatim>\<open>for\<close> loop of \<^verbatim>\<open>constructGreedyChain\<close>, from index \<open>i\<close> on: the first
  strictly smaller distance wins.
\<close>

fun scanNearest :: "LatLng \<Rightarrow> 'a WSNNode_scheme list \<Rightarrow> nat \<Rightarrow> nat \<times> real \<Rightarrow> nat \<times> real" where
  "scanNearest cur [] i acc = acc"
| "scanNearest cur (n # ns) i (nearestIndex, minDistance) =
     (let distance = calculateDistance cur (position n)
      in scanNearest cur ns (Suc i)
           (if distance < minDistance then (i, distance) else (nearestIndex, minDistance)))"

definition nearestIndexOf :: "'a WSNNode_scheme \<Rightarrow> 'a WSNNode_scheme \<Rightarrow> 'a WSNNode_scheme list \<Rightarrow> nat" where
  "nearestIndexOf currentNode n0 rest =
     fst (scanNearest (position currentNode) rest 1
            (0, calculateDistance (position currentNode) (position n0)))"

lemma scanNearest_bound:
  "fst acc < i \<Longrightarrow> fst (scanNearest cur ns i acc) < i + length ns"
proof (induction ns arbitrary: i acc)
  case Nil
  then show ?case by simp
next
  case (Cons n ns)
  obtain j d where acc: "acc = (j, d)" by (cases acc)
  let ?acc' = "(if calculateDistance cur (position n) < d then (i, calculateDistance cur (position n)) else (j, d))"
  from Cons.prems acc have "fst ?acc' < Suc i" by simp
  from Cons.IH [OF this] show ?case
    by (simp add: acc Let_def)
qed

lemma nearestIndexOf_bound: "nearestIndexOf c n0 rest < Suc (length rest)"
  unfolding nearestIndexOf_def using scanNearest_bound [of "(0, _)" 1 _ rest] by simp

text \<open>
  The \<^verbatim>\<open>while (nodesCopy.length > 0)\<close> loop: the nearest node is appended to the chain
  and spliced out of \<^verbatim>\<open>nodesCopy\<close>.
\<close>

function greedyLoop :: "'a WSNNode_scheme \<Rightarrow> 'a WSNNode_scheme list \<Rightarrow> string list \<Rightarrow> string list" where
  "greedyLoop currentNode [] chn = chn"
| "greedyLoop currentNode (n0 # rest) chn =
     (let nearestIndex = nearestIndexOf currentNode n0 rest;
          nextNode = (n0 # rest) ! nearestIndex
      in greedyLoop nextNode
           (take nearestIndex (n0 # rest) @ drop (Suc nearestIndex) (n0 # rest))
           (chn @ [node_id nextNode]))"
  by pat_completeness auto
termination
proof (relation "measure (\<lambda>(c, ns, ch). length ns)")
  show "wf (measure (\<lambda>(c, ns, ch). length ns))" by simp
next
  fix currentNode n0 :: "'a WSNNode_scheme" and rest chn x xa
  assume "x = nearestIndexOf currentNode n0 rest"
  then have "x < Suc (length rest)" by (simp add: nearestIndexOf_bound)
  then show "((xa, take x (n0 # rest) @ drop (Suc x) (n0 # rest), chn @ [node_id xa]),
              (currentNode, n0 # rest, chn)) \<in> measure (\<lambda>(c, ns, ch). length ns)"
    by simp
qed

text \<open>The chain starts at the first node of its argument (\<^verbatim>\<open>nodesCopy.shift()\<close>).\<close>

fun constructGreedyChain :: "'a WSNNode_scheme list \<Rightarrow> string list" where
  "constructGreedyChain [] = []"
| "constructGreedyChain [n] = [node_id n]"
| "constructGreedyChain (n # rest) = greedyLoop n rest [node_id n]"

text \<open>\<^verbatim>\<open>chain[i]\<close>: \<^verbatim>\<open>undefined\<close> outside the array.\<close>

definition elemAt :: "string list \<Rightarrow> int \<Rightarrow> string option" where
  "elemAt xs i = (if 0 \<le> i \<and> i < int (length xs) then Some (xs ! nat i) else None)"

text \<open>\<^verbatim>\<open>chain.indexOf(leader)\<close>: the first position, or \<open>-1\<close>.\<close>

fun indexFrom :: "string list \<Rightarrow> string \<Rightarrow> int \<Rightarrow> int" where
  "indexFrom [] k i = -1"
| "indexFrom (x # xs) k i = (if x = k then i else indexFrom xs k (i + 1))"

definition indexOf :: "string list \<Rightarrow> string option \<Rightarrow> int" where
  "indexOf xs k = (case k of None \<Rightarrow> -1 | Some i \<Rightarrow> indexFrom xs i 0)"

text \<open>
  The remainder of \<^verbatim>\<open>%\<close> has the sign of the dividend; by zero it is \<^verbatim>\<open>NaN\<close>, and
  \<^verbatim>\<open>chain[NaN]\<close> is \<^verbatim>\<open>undefined\<close>.
\<close>

definition jsRem :: "int \<Rightarrow> int \<Rightarrow> int" where
  "jsRem a b = sgn a * (\<bar>a\<bar> mod \<bar>b\<bar>)"

text \<open>\<^verbatim>\<open>nodeEnergy[nodeId] > nodeEnergy[maxId]\<close>: false when either side is \<^verbatim>\<open>undefined\<close>.\<close>

definition energyGreater :: "ledger \<Rightarrow> string \<Rightarrow> string \<Rightarrow> bool" where
  "energyGreater e a b =
     (case (map_of e a, map_of e b) of (Some x, Some y) \<Rightarrow> y < x | _ \<Rightarrow> False)"

definition selectLeader :: "PEGASISConfig \<Rightarrow> ledger \<Rightarrow> string list \<Rightarrow> int \<Rightarrow> string option" where
  "selectLeader config e chn rno =
     (if leaderSelectionMethod config = roundRobin then
        (if chn = [] then None else elemAt chn (jsRem (rno - 1) (int (length chn))))
      else
        (case chn of [] \<Rightarrow> None
         | c0 # _ \<Rightarrow> Some (fold (\<lambda>nodeId maxId. if energyGreater e nodeId maxId then nodeId else maxId) chn c0)))"

text \<open>
  The body shared by the two relay loops: \<^verbatim>\<open>senderId = chain[i]\<close> and
  \<^verbatim>\<open>receiverId = chain[i + 1]\<close> on the left side, \<^verbatim>\<open>chain[i - 1]\<close> on the right side.
\<close>

definition relayHop ::
  "'c Config_scheme \<Rightarrow> 'a WSNNode_scheme list \<Rightarrow> string option \<Rightarrow> string option \<Rightarrow> acct \<Rightarrow> error + acct"
where
  "relayHop config nodes senderId receiverId st =
     (case st of (e, u, d) \<Rightarrow>
        if le0 e (key senderId) then Inr st
        else
          (case (findNode nodes senderId, findNode nodes receiverId) of
             (Some sender, Some receiver) \<Rightarrow>
               let distance = calculateDistance (position sender) (position receiver);
                   transmitCost = transmitEnergy config * dataSize config * (1 + 0.1 * distance);
                   u1 = charge u (key senderId) transmitCost;
                   e1 = spend e (key senderId) transmitCost
               in if le0 e1 (key receiverId) then Inr (e1, u1, d)
                  else
                    let receiveCost = receiveEnergy config * dataSize config
                    in Inr (spend e1 (key receiverId) receiveCost,
                            charge u1 (key receiverId) receiveCost,
                            d + dataSize config)
           | _ \<Rightarrow> Inl TypeError))"

definition leftSide ::
  "'c Config_scheme \<Rightarrow> 'a WSNNode_scheme list \<Rightarrow> string list \<Rightarrow> int \<Rightarrow> acct \<Rightarrow> error + acct"
where
  "leftSide config nodes chn leaderIndex st =
     forEachE (\<lambda>i. relayHop config nodes (elemAt chn i) (elemAt chn (i + 1))) [0..leaderIndex - 1] st"

definition rightSide ::
  "'c Config_scheme \<Rightarrow> 'a WSNNode_scheme list \<Rightarrow> string list \<Rightarrow> int \<Rightarrow> acct \<Rightarrow> error + acct"
where
  "rightSide config nodes chn leaderIndex st =
     forEachE (\<lambda>i. relayHop config nodes (elemAt chn i) (elemAt chn (i - 1)))
       (rev [leaderIndex + 1..int (length chn) - 1]) st"

definition leaderToBase ::
  "'c Config_scheme \<Rightarrow> 'a WSNNode_scheme list \<Rightarrow> 'a WSNNode_scheme option \<Rightarrow> string option \<Rightarrow> acct \<Rightarrow> error + acct"
where
  "leaderToBase config nodes baseStation ldr st =
     (case st of (e, u, d) \<Rightarrow>
        (case baseStation of
           None \<Rightarrow> Inr st
         | Some bs \<Rightarrow>
             if gt0 e (key ldr) then
               (case findNode nodes ldr of
                  None \<Rightarrow> Inl TypeError
                | Some leaderNode \<Rightarrow>
                    let distance = calculateDistance (position leaderNode) (position bs);
                        aggregatedDataSize = dataSize config * 0.8;
                        transmitCost = transmitEnergy config * aggregatedDataSize * (1 + 0.2 * distance)
                    in Inr (spend e (key ldr) transmitCost,
                            charge u (key ldr) transmitCost,
                            d + aggregatedDataSize))
             else Inr st))"

text \<open>The energy phases of one PEGASIS round, starting from an empty \<^verbatim>\<open>energyUsage\<close>.\<close>

definition pegasisPhases ::
  "'c Config_scheme \<Rightarrow> 'a WSNNode_scheme list \<Rightarrow> 'a WSNNode_scheme option \<Rightarrow> string list \<Rightarrow>
     string option \<Rightarrow> ledger \<Rightarrow> error + acct"
where
  "pegasisPhases config nodes baseStation chn ldr e =
     (let leaderIndex = indexOf chn ldr in
      case leftSide config nodes chn leaderIndex (e, [], 0) of
        Inl err \<Rightarrow> Inl err
      | Inr st1 \<Rightarrow>
          (case rightSide config nodes chn leaderIndex st1 of
             Inl err \<Rightarrow> Inl err
           | Inr st2 \<Rightarrow> leaderToBase config nodes baseStation ldr st2))"

definition pegasisRound ::
  "PEGASISConfig \<Rightarrow> 'a WSNNode_scheme list \<Rightarrow> 'a WSNNode_scheme option \<Rightarrow> string list \<Rightarrow>
     int \<Rightarrow> PEGASISRound RunState \<Rightarrow> error + PEGASISRound RunState"
where
  "pegasisRound config nodes baseStation chn rno s =
     (let ldr = selectLeader config (s_nodeEnergy s) chn rno in
      case pegasisPhases config nodes baseStation chn ldr (s_nodeEnergy s) of
        Inl err \<Rightarrow> Inl err
      | Inr (e, u, d) \<Rightarrow>
          Inr (closeRound nodes rno
                 \<lparr> roundNumber = rno, energyUsage = u, nodesAlive = countAlive nodes e,
                   dataTransmitted = d, chain = chn, leader = ldr \<rparr>
                 (e, u, d) s))"

text \<open>
  The body of the \<^verbatim>\<open>for (let round = 1; round <= config.rounds; round++)\<close> loop,
  with its \<^verbatim>\<open>if (networkDied) continue\<close>.
\<close>

definition pegasisStep ::
  "PEGASISConfig \<Rightarrow> 'a WSNNode_scheme list \<Rightarrow> 'a WSNNode_scheme option \<Rightarrow> string list \<Rightarrow>
     int \<Rightarrow> PEGASISRound RunState \<Rightarrow> error + PEGASISRound RunState"
where
  "pegasisStep config nodes baseStation chn rno s =
     (if s_networkDied s then Inr s else pegasisRound config nodes baseStation chn rno s)"

definition simulatePEGASIS ::
  "'a WSNNode_scheme list \<Rightarrow> PEGASISConfig \<Rightarrow> error + PEGASISRound SimulationResult"
where
  "simulatePEGASIS nodes config =
     (let baseStation = List.find (\<lambda>node. node_type node = Base) nodes;
          sensorNodes = filter (\<lambda>node. node_type node \<noteq> Base) nodes;
          chn = constructGreedyChain sensorNodes
      in case forEachE (pegasisStep config nodes baseStation chn) [1..rounds config]
                (initState nodes config) of
           Inl err \<Rightarrow> Inl err
         | Inr s \<Rightarrow> Inr (finish nodes s))"

subsection \<open>LEACH\<close>

text \<open>
  Head election, one node of \<^verbatim>\<open>nodes.forEach\<close>: dead nodes and the base station draw
  no random number. The state is \<^verbatim>\<open>clusterHeads\<close>, \<^verbatim>\<open>clusterMembers\<close> and the number
  of calls of \<^verbatim>\<open>Math.random\<close> so far.
\<close>

type_synonym topology = "string list \<times> (string \<times> string list) list \<times> nat"

definition electStep ::
  "(nat \<Rightarrow> real) \<Rightarrow> LEACHConfig \<Rightarrow> ledger \<Rightarrow> 'a WSNNode_scheme \<Rightarrow> topology \<Rightarrow> topology"
where
  "electStep rnd config e node t =
     (case t of (heads, members, i) \<Rightarrow>
        if le0 e (node_id node) then t
        else if node_type node = Base then t
        else
          let randomProb = frac (rnd i)
          in if randomProb < probabilityThreshold config
             then (heads @ [node_id node], AList.update (node_id node) [] members, Suc i)
             else (heads, members, Suc i))"

definition electHeads ::
  "(nat \<Rightarrow> real) \<Rightarrow> LEACHConfig \<Rightarrow> ledger \<Rightarrow> 'a WSNNode_scheme list \<Rightarrow> nat \<Rightarrow> topology"
where
  "electHeads rnd config e nodes i = fold (electStep rnd config e) nodes ([], [], i)"

text \<open>\<^verbatim>\<open>if (clusterHeads.length === 0) { ... }\<close>: one live non-base node, drawn at random.\<close>

definition fallbackHead ::
  "(nat \<Rightarrow> real) \<Rightarrow> ledger \<Rightarrow> 'a WSNNode_scheme list \<Rightarrow> topology \<Rightarrow> topology"
where
  "fallbackHead rnd e nodes t =
     (case t of (heads, members, i) \<Rightarrow>
        if length heads = 0 then
          (let availableNodes =
                 map node_id
                   (filter (\<lambda>node. gt0 e (node_id node) \<and> node_type node \<noteq> Base) nodes)
           in if length availableNodes > 0 then
                (let randomIndex = nat \<lfloor>frac (rnd i) * real (length availableNodes)\<rfloor>;
                     selectedHead = availableNodes ! randomIndex
                 in (heads @ [selectedHead], AList.update selectedHead [] members, Suc i))
              else t)
        else t)"

text \<open>
  The scan for the nearest head; \<^verbatim>\<open>minDistance = Infinity\<close> is \<^term>\<open>None\<close>. A head
  that \<^verbatim>\<open>nodes.find\<close> does not find has no \<^verbatim>\<open>position\<close>.
\<close>

definition nearestStep ::
  "'a WSNNode_scheme list \<Rightarrow> 'a WSNNode_scheme \<Rightarrow> string \<Rightarrow> real option \<times> string \<Rightarrow>
     error + real option \<times> string"
where
  "nearestStep nodes node headId acc =
     (case acc of (minDistance, nearestHead) \<Rightarrow>
        (case findNode nodes (Some headId) of
           None \<Rightarrow> Inl TypeError
         | Some head \<Rightarrow>
             let distance = calculateDistance (position node) (position head)
             in if (case minDistance of None \<Rightarrow> True | Some m \<Rightarrow> distance < m)
                then Inr (Some distance, headId)
                else Inr acc))"

text \<open>
  Member assignment, one node of \<^verbatim>\<open>nodes.forEach\<close>. \<^verbatim>\<open>if (nearestHead)\<close> is false
  on the empty string; \<^verbatim>\<open>clusterMembers[nearestHead].push\<close> throws on a missing key.
\<close>

definition assignStep ::
  "'a WSNNode_scheme list \<Rightarrow> ledger \<Rightarrow> string list \<Rightarrow> 'a WSNNode_scheme \<Rightarrow>
     (string \<times> string list) list \<Rightarrow> error + (string \<times> string list) list"
where
  "assignStep nodes e heads node members =
     (if le0 e (node_id node) then Inr members
      else if node_type node = Base then Inr members
      else if node_id node \<in> set heads then Inr members
      else
        (case forEachE (nearestStep nodes node) heads (None, []) of
           Inl err \<Rightarrow> Inl err
         | Inr (minDistance, nearestHead) \<Rightarrow>
             if nearestHead \<noteq> [] then
               (case map_of members nearestHead of
                  None \<Rightarrow> Inl TypeError
                | Some ms \<Rightarrow> Inr (AList.update nearestHead (ms @ [node_id node]) members))
             else Inr members))"

definition leachTopology ::
  "(nat \<Rightarrow> real) \<Rightarrow> LEACHConfig \<Rightarrow> 'a WSNNode_scheme list \<Rightarrow> ledger \<Rightarrow> nat \<Rightarrow> error + topology"
where
  "leachTopology rnd config nodes e i =
     (case fallbackHead rnd e nodes (electHeads rnd config e nodes i) of
        (heads, members0, i') \<Rightarrow>
          (case forEachE (assignStep nodes e heads) nodes members0 of
             Inl err \<Rightarrow> Inl err
           | Inr members \<Rightarrow> Inr (heads, members, i')))"

text \<open>Phase 1, the body of the inner loop: one member sends to its head.\<close>

definition memberSend ::
  "'c Config_scheme \<Rightarrow> 'a WSNNode_scheme list \<Rightarrow> string \<Rightarrow> string \<Rightarrow> acct \<Rightarrow> error + acct"
where
  "memberSend config nodes headId memberId st =
     (case st of (e, u, d) \<Rightarrow>
        (case (findNode nodes (Some memberId), findNode nodes (Some headId)) of
           (Some member, Some head) \<Rightarrow>
             let distance = calculateDistance (position member) (position head);
                 transmitCost = transmitEnergy config * dataSize config * (1 + 0.1 * distance);
                 u1 = charge u memberId transmitCost;
                 e1 = spend e memberId transmitCost;
                 receiveCost = receiveEnergy config * dataSize config;
                 u2 = charge u1 headId receiveCost;
                 e2 = spend e1 headId receiveCost
             in Inr (e2, u2, d + dataSize config)
         | _ \<Rightarrow> Inl TypeError))"

definition clusterSend ::
  "'c Config_scheme \<Rightarrow> 'a WSNNode_scheme list \<Rightarrow> (string \<times> string list) list \<Rightarrow> string \<Rightarrow>
     acct \<Rightarrow> error + acct"
where
  "clusterSend config nodes members headId st =
     (case map_of members headId of
        None \<Rightarrow> Inl TypeError
      | Some memberIds \<Rightarrow> forEachE (memberSend config nodes headId) memberIds st)"

definition memberPhase ::
  "'c Config_scheme \<Rightarrow> 'a WSNNode_scheme list \<Rightarrow> string list \<Rightarrow> (string \<times> string list) list \<Rightarrow>
     acct \<Rightarrow> error + acct"
where
  "memberPhase config nodes heads members st =
     forEachE (clusterSend config nodes members) heads st"

text \<open>
  Phase 2, the body of the loop: one head sends its aggregate to the base station.
  \<^verbatim>\<open>baseStation\<close> comes from \<^verbatim>\<open>nodes.find(n => n.type === 'base')!\<close>.
\<close>

definition aggregatedSize :: "'c Config_scheme \<Rightarrow> nat \<Rightarrow> real" where
  "aggregatedSize config memberCount = dataSize config * (0.5 + 0.5 * real memberCount)"

definition headSend ::
  "'c Config_scheme \<Rightarrow> 'a WSNNode_scheme list \<Rightarrow> 'a WSNNode_scheme option \<Rightarrow>
     (string \<times> string list) list \<Rightarrow> string \<Rightarrow> acct \<Rightarrow> error + acct"
where
  "headSend config nodes baseStation members headId st =
     (case st of (e, u, d) \<Rightarrow>
        (case (findNode nodes (Some headId), baseStation) of
           (Some head, Some bs) \<Rightarrow>
             let distance = calculateDistance (position head) (position bs)
             in (case map_of members headId of
                   None \<Rightarrow> Inl TypeError
                 | Some ms \<Rightarrow>
                     let memberCount = length ms;
                         aggregatedDataSize = aggregatedSize config memberCount;
                         transmitCost = transmitEnergy config * aggregatedDataSize * (1 + 0.2 * distance)
                     in Inr (spend e headId transmitCost,
                             charge u headId transmitCost,
                             d + aggregatedDataSize))
         | _ \<Rightarrow> Inl TypeError))"

definition basePhase ::
  "'c Config_scheme \<Rightarrow> 'a WSNNode_scheme list \<Rightarrow> string list \<Rightarrow> (string \<times> string list) list \<Rightarrow>
     acct \<Rightarrow> error + acct"
where
  "basePhase config nodes heads members st =
     forEachE (headSend config nodes (List.find (\<lambda>n. node_type n = Base) nodes) members) heads st"

definition leachPhases ::
  "'c Config_scheme \<Rightarrow> 'a WSNNode_scheme list \<Rightarrow> string list \<Rightarrow> (string \<times> string list) list \<Rightarrow>
     ledger \<Rightarrow> error + acct"
where
  "leachPhases config nodes heads members e =
     (case memberPhase config nodes heads members (e, [], 0) of
        Inl err \<Rightarrow> Inl err
      | Inr st1 \<Rightarrow> basePhase config nodes heads members st1)"

record LeachState = "LEACHRound RunState" +
  s_randomCalls :: nat

definition leachRound ::
  "(nat \<Rightarrow> real) \<Rightarrow> LEACHConfig \<Rightarrow> 'a WSNNode_scheme list \<Rightarrow> int \<Rightarrow> LeachState \<Rightarrow> error + LeachState"
where
  "leachRound rnd config nodes rno s =
     (case leachTopology rnd config nodes (s_nodeEnergy s) (s_randomCalls s) of
        Inl err \<Rightarrow> Inl err
      | Inr (heads, members, i) \<Rightarrow>
          (case leachPhases config nodes heads members (s_nodeEnergy s) of
             Inl err \<Rightarrow> Inl err
           | Inr (e, u, d) \<Rightarrow>
               Inr (closeRound nodes rno
                      \<lparr> roundNumber = rno, energyUsage = u, nodesAlive = countAlive nodes e,
                        dataTransmitted = d, clusterHeads = heads, clusterMembers = members \<rparr>
                      (e, u, d) (s \<lparr> s_randomCalls := i \<rparr>))))"

definition leachStep ::
  "(nat \<Rightarrow> real) \<Rightarrow> LEACHConfig \<Rightarrow> 'a WSNNode_scheme list \<Rightarrow> int \<Rightarrow> LeachState \<Rightarrow> error + LeachState"
where
  "leachStep rnd config nodes rno s =
     (if s_networkDied s then Inr s else leachRound rnd config nodes rno s)"

definition initLeachState :: "'a WSNNode_scheme list \<Rightarrow> 'c Config_scheme \<Rightarrow> LeachState" where
  "initLeachState nodes config =
     \<lparr> s_nodeEnergy = initEnergy nodes (initialEnergy config),
       s_rounds = [],
       s_totalEnergyConsumption = 0,
       s_dataDelivered = 0,
       s_networkDied = False,
       s_networkLifetime = rounds config,
       s_randomCalls = 0 \<rparr>"

definition simulateLEACH ::
  "(nat \<Rightarrow> real) \<Rightarrow> 'a WSNNode_scheme list \<Rightarrow> LEACHConfig \<Rightarrow> error + LEACHRound SimulationResult"
where
  "simulateLEACH rnd nodes config =
     (case forEachE (leachStep rnd config nodes) [1..rounds config] (initLeachState nodes config) of
        Inl err \<Rightarrow> Inl err
      | Inr s \<Rightarrow> Inr (finish nodes s))"

section \<open>Properties\<close>

subsection \<open>Predicates on a run\<close>

text \<open>
  The \<open>energyUsage\<close> values of a log, round after round and within a round in the order
  of its keys; their running sum from \<open>0\<close>, one addition per value; and the sum of the
  sums of the rounds, each round summed on its own from \<open>0\<close>.
\<close>

definition usageValues :: "'a Round_scheme list \<Rightarrow> real list" where
  "usageValues rs = concat (map (\<lambda>r. map snd (energyUsage r)) rs)"

definition runningTotal :: "real list \<Rightarrow> real" where
  "runningTotal vs = fold (\<lambda>v t. jsAdd t v) vs 0"

definition nestedTotal :: "'a Round_scheme list \<Rightarrow> real" where
  "nestedTotal rs = fold (\<lambda>r t. jsAdd t (runningTotal (map snd (energyUsage r)))) rs 0"

text \<open>
  The invariant of the round loop after the rounds \<open>seen\<close>, for \<open>n\<close> nodes and
  \<open>R = config.rounds\<close>: the log holds the numbers of the rounds that ran, in order, the
  energy total is the running sum of the logged values, the data total the sum of the
  logged data, and either no round has seen a dead node, or the last logged round is
  the one that did and fixed the lifetime.
\<close>

definition runInv :: "nat \<Rightarrow> int \<Rightarrow> int list \<Rightarrow> ('a Round_scheme, 'z) RunState_scheme \<Rightarrow> bool" where
  "runInv n R seen s \<longleftrightarrow>
     map roundNumber (s_rounds s) = take (length (s_rounds s)) seen \<and>
     length (s_rounds s) \<le> length seen \<and>
     s_totalEnergyConsumption s = runningTotal (usageValues (s_rounds s)) \<and>
     s_dataDelivered s = (\<Sum>r\<leftarrow>s_rounds s. dataTransmitted r) \<and>
     (if s_networkDied s
      then s_rounds s \<noteq> [] \<and> nodesAlive (last (s_rounds s)) < n \<and>
           s_networkLifetime s = roundNumber (last (s_rounds s)) \<and>
           (\<forall>r\<in>set (butlast (s_rounds s)). nodesAlive r = n)
      else length (s_rounds s) = length seen \<and> s_networkLifetime s = R \<and>
           (\<forall>r\<in>set (s_rounds s). nodesAlive r = n))"

text \<open>
  The shape of a returned log: numbered \<open>1, 2, \<dots>\<close> without gaps, no longer than
  \<open>config.rounds\<close>, of full length when every round had all \<open>n\<close> nodes alive, and
  ending at the first round that did not.
\<close>

definition logShape :: "nat \<Rightarrow> int \<Rightarrow> 'a Round_scheme list \<Rightarrow> bool" where
  "logShape n R rs \<longleftrightarrow>
     map roundNumber rs = [1..int (length rs)] \<and>
     int (length rs) \<le> max 0 R \<and>
     ((\<forall>r\<in>set rs. nodesAlive r = n) \<longrightarrow> int (length rs) = max 0 R) \<and>
     (\<forall>i<length rs. nodesAlive (rs ! i) < n \<longrightarrow> Suc i = length rs)"

text \<open>
  The returned lifetime: at most \<open>config.rounds\<close>, equal to it when every round had all
  nodes alive, and otherwise the number of the round that saw a dead node.
\<close>

definition lifetimeShape :: "nat \<Rightarrow> int \<Rightarrow> 'a Round_scheme list \<Rightarrow> int \<Rightarrow> bool" where
  "lifetimeShape n R rs lifetime \<longleftrightarrow>
     lifetime \<le> R \<and>
     ((\<forall>r\<in>set rs. nodesAlive r = n) \<longrightarrow> lifetime = R) \<and>
     (\<forall>i<length rs. nodesAlive (rs ! i) < n \<longrightarrow> lifetime = int (Suc i))"

subsection \<open>A small network\<close>

text \<open>
  A base station and one sensor at the same place, unit energy constants. PEGASIS
  spends \<open>0.8\<close> per round on the leader's message, LEACH (threshold \<open>1\<close>, so the
  sensor is always elected) \<open>0.5\<close> on the head's: the sensor dies in round 2.
\<close>

definition exBase :: WSNNode where
  "exBase = \<lparr> node_id = ''base'', position = \<lparr> lat = 0, lng = 0 \<rparr>, node_type = Base \<rparr>"

definition exSensor :: WSNNode where
  "exSensor = \<lparr> node_id = ''s1'', position = \<lparr> lat = 0, lng = 0 \<rparr>, node_type = Sensor \<rparr>"

definition exPegasisConfig :: "int \<Rightarrow> PEGASISConfig" where
  "exPegasisConfig R =
     \<lparr> rounds = R, initialEnergy = 1, transmitEnergy = 1, receiveEnergy = 1, dataSize = 1,
       leaderSelectionMethod = roundRobin \<rparr>"

definition exLeachConfig :: "int \<Rightarrow> LEACHConfig" where
  "exLeachConfig R =
     \<lparr> rounds = R, initialEnergy = 1, transmitEnergy = 1, receiveEnergy = 1, dataSize = 1,
       probabilityThreshold = 1 \<rparr>"

definition exPegasisResult :: "PEGASISRound SimulationResult" where
  "exPegasisResult =
     \<lparr> rounds_log =
         [\<lparr> roundNumber = 1, energyUsage = [(''s1'', 4 / 5)], nodesAlive = 2,
            dataTransmitted = 4 / 5, chain = [''s1''], leader = Some ''s1'' \<rparr>,
          \<lparr> roundNumber = 2, energyUsage = [(''s1'', 4 / 5)], nodesAlive = 1,
            dataTransmitted = 4 / 5, chain = [''s1''], leader = Some ''s1'' \<rparr>],
       metrics = \<lparr> energyConsumption = jsAdd (jsAdd 0 (4 / 5)) (4 / 5), networkLifetime = 2,
                   dataDelivered = 8 / 5, averageEnergy = Some (1 / 5) \<rparr> \<rparr>"

definition exLeachResult :: "LEACHRound SimulationResult" where
  "exLeachResult =
     \<lparr> rounds_log =
         [\<lparr> roundNumber = 1, energyUsage = [(''s1'', 1 / 2)], nodesAlive = 2,
            dataTransmitted = 1 / 2, clusterHeads = [''s1''], clusterMembers = [(''s1'', [])] \<rparr>,
          \<lparr> roundNumber = 2, energyUsage = [(''s1'', 1 / 2)], nodesAlive = 1,
            dataTransmitted = 1 / 2, clusterHeads = [''s1''], clusterMembers = [(''s1'', [])] \<rparr>],
       metrics = \<lparr> energyConsumption = jsAdd (jsAdd 0 (1 / 2)) (1 / 2), networkLifetime = 2,
                   dataDelivered = 1, averageEnergy = Some (1 / 2) \<rparr> \<rparr>"

subsection \<open>Reading the ledger\<close>



definition exSensor2 :: WSNNode where
  "exSensor2 = \<lparr> node_id = ''s2'', position = \<lparr> lat = 0, lng = 0 \<rparr>, node_type = Sensor \<rparr>"

subsection \<open>Energy never increases\<close>

text \<open>
  \<open>ledgerLe e' e\<close>: every key of \<open>e\<close> is a key of \<open>e'\<close>, with a value that is not
  greater. \<open>neverIncreases nodes e0 e1 e2\<close>: between two ledger states of a run, taken in
  that order, no node's remaining energy went up, and the earlier one is at most the
  initial energy \<open>e0\<close>.
\<close>

definition ledgerLe :: "ledger \<Rightarrow> ledger \<Rightarrow> bool" where
  "ledgerLe e' e \<longleftrightarrow> (\<forall>k v. map_of e k = Some v \<longrightarrow> (\<exists>v'. map_of e' k = Some v' \<and> v' \<le> v))"

definition costsNonneg :: "'c Config_scheme \<Rightarrow> bool" where
  "costsNonneg config \<longleftrightarrow> 0 \<le> transmitEnergy config \<and> 0 \<le> receiveEnergy config \<and> 0 \<le> dataSize config"

definition neverIncreases :: "'a WSNNode_scheme list \<Rightarrow> real \<Rightarrow> ledger \<Rightarrow> ledger \<Rightarrow> bool" where
  "neverIncreases nodes e0 e1 e2 \<longleftrightarrow>
     (\<forall>node\<in>set nodes. \<exists>v1 v2.
        map_of e1 (node_id node) = Some v1 \<and> map_of e2 (node_id node) = Some v2 \<and>
        v2 \<le> v1 \<and> v1 \<le> e0)"

text \<open>The states of the two simulators on the small network after round 1 and round 2.\<close>

definition exLeachState1 :: LeachState where
  "exLeachState1 =
     \<lparr> s_nodeEnergy = [(''base'', 1), (''s1'', 1 / 2)],
       s_rounds = [\<lparr> roundNumber = 1, energyUsage = [(''s1'', 1 / 2)], nodesAlive = 2,
                     dataTransmitted = 1 / 2, clusterHeads = [''s1''],
                     clusterMembers = [(''s1'', [])] \<rparr>],
       s_totalEnergyConsumption = jsAdd 0 (1 / 2), s_dataDelivered = 1 / 2,
       s_networkDied = False, s_networkLifetime = 3, s_randomCalls = 1 \<rparr>"

definition exLeachState2 :: LeachState where
  "exLeachState2 =
     \<lparr> s_nodeEnergy = [(''base'', 1), (''s1'', 0)],
       s_rounds = rounds_log exLeachResult,
       s_totalEnergyConsumption = jsAdd (jsAdd 0 (1 / 2)) (1 / 2), s_dataDelivered = 1,
       s_networkDied = True, s_networkLifetime = 2, s_randomCalls = 2 \<rparr>"

definition exPegasisState1 :: "PEGASISRound RunState" where
  "exPegasisState1 =
     \<lparr> s_nodeEnergy = [(''base'', 1), (''s1'', 1 / 5)],
       s_rounds = [\<lparr> roundNumber = 1, energyUsage = [(''s1'', 4 / 5)], nodesAlive = 2,
                     dataTransmitted = 4 / 5, chain = [''s1''], leader = Some ''s1'' \<rparr>],
       s_totalEnergyConsumption = jsAdd 0 (4 / 5), s_dataDelivered = 4 / 5,
       s_networkDied = False, s_networkLifetime = 3 \<rparr>"

definition exPegasisState2 :: "PEGASISRound RunState" where
  "exPegasisState2 =
     \<lparr> s_nodeEnergy = [(''base'', 1), (''s1'', - (3 / 5))],
       s_rounds = rounds_log exPegasisResult,
       s_totalEnergyConsumption = jsAdd (jsAdd 0 (4 / 5)) (4 / 5), s_dataDelivered = 8 / 5,
       s_networkDied = True, s_networkLifetime = 2 \<rparr>"

subsection \<open>Cluster heads\<close>

text \<open>\<^verbatim>\<open>clusterMembers[headId].length\<close>, for a head that has an entry.\<close>

definition memberCount :: "(string \<times> string list) list \<Rightarrow> string \<Rightarrow> nat" where
  "memberCount members headId = (case map_of members headId of None \<Rightarrow> 0 | Some ms \<Rightarrow> length ms)"

text \<open>
  The invariant of the LEACH round loop behind the fallback: every logged round with a
  node alive has a head, and while the network has not died either every node is alive
  or no round has run yet.
\<close>

definition headsInv :: "'a WSNNode_scheme list \<Rightarrow> real \<Rightarrow> LeachState \<Rightarrow> bool" where
  "headsInv nodes e0 s \<longleftrightarrow>
     (\<forall>r\<in>set (s_rounds s). 0 < nodesAlive r \<longrightarrow> clusterHeads r \<noteq> []) \<and>
     (\<not> s_networkDied s \<longrightarrow>
        (\<forall>node\<in>set nodes. gt0 (s_nodeEnergy s) (node_id node)) \<or>
        s_nodeEnergy s = initEnergy nodes e0)"

text \<open>
  A base station and two sensors; the first random draw elects \<open>s1\<close>, the second
  (\<open>0.9\<close>, against a threshold of \<open>0.5\<close>) does not elect \<open>s2\<close>, which joins \<open>s1\<close>'s
  cluster. Receiving \<open>s2\<close>'s message costs \<open>s1\<close> its whole energy: \<open>exDrained\<close> is the
  state between the two phases.
\<close>

definition exDraws :: "nat \<Rightarrow> real" where
  "exDraws i = (if i = 0 then 0 else 9 / 10)"

definition exLeachConfigHalf :: LEACHConfig where
  "exLeachConfigHalf =
     \<lparr> rounds = 1, initialEnergy = 1, transmitEnergy = 1, receiveEnergy = 1, dataSize = 1,
       probabilityThreshold = 1 / 2 \<rparr>"

definition exNodes3 :: "WSNNode list" where
  "exNodes3 = [exBase, exSensor, exSensor2]"

definition exMembers :: "(string \<times> string list) list" where
  "exMembers = [(''s1'', [''s2''])]"

definition exDrained :: acct where
  "exDrained = ([(''base'', 1), (''s1'', 0), (''s2'', 0)], [(''s2'', 1), (''s1'', 1)], 1)"

definition exDrainedResult :: "LEACHRound SimulationResult" where
  "exDrainedResult =
     \<lparr> rounds_log =
         [\<lparr> roundNumber = 1, energyUsage = [(''s2'', 1), (''s1'', 2)], nodesAlive = 1,
            dataTransmitted = 2, clusterHeads = [''s1''], clusterMembers = [(''s1'', [''s2''])] \<rparr>],
       metrics = \<lparr> energyConsumption = jsAdd (jsAdd 0 1) 2, networkLifetime = 1,
                   dataDelivered = 2, averageEnergy = Some 0 \<rparr> \<rparr>"

text \<open>The runs on a base station alone and on a sensor alone.\<close>

definition exBaseOnlyResult :: "LEACHRound SimulationResult" where
  "exBaseOnlyResult =
     \<lparr> rounds_log =
         [\<lparr> roundNumber = 1, energyUsage = [], nodesAlive = 1, dataTransmitted = 0,
            clusterHeads = [], clusterMembers = [] \<rparr>],
       metrics = \<lparr> energyConsumption = 0, networkLifetime = 1, dataDelivered = 0,
                   averageEnergy = Some 1 \<rparr> \<rparr>"


subsection \<open>Well-formed topologies\<close>

text \<open>
  What the election and the assignment of a LEACH round keep true of \<^verbatim>\<open>clusterHeads\<close>
  and \<^verbatim>\<open>clusterMembers\<close>: heads and members are ids of nodes, and every head has an
  entry.
\<close>

definition topologyOK :: "string set \<Rightarrow> string list \<Rightarrow> (string \<times> string list) list \<Rightarrow> bool" where
  "topologyOK ids heads members \<longleftrightarrow>
     set heads \<subseteq> ids \<and> set heads \<subseteq> fst ` set members \<and>
     (\<forall>k ms. map_of members k = Some ms \<longrightarrow> set ms \<subseteq> ids)"

text \<open>A base station whose id is the string \<^verbatim>\<open>"undefined"\<close>.\<close>

definition exOddBase :: WSNNode where
  "exOddBase = \<lparr> node_id = ''undefined'', position = \<lparr> lat = 0, lng = 0 \<rparr>, node_type = Base \<rparr>"

subsection \<open>Node ids as property keys\<close>

text \<open>
  The names of the members of \<^verbatim>\<open>Object.prototype\<close>. A node list has plain ids when no
  id is one of them: then \<^verbatim>\<open>nodeEnergy\<close>, \<^verbatim>\<open>energyUsage\<close> and \<^verbatim>\<open>clusterMembers\<close> hold
  exactly what was assigned to them. It is insertion-ordered when no id is made of
  digits only: then no key is an array index, and \<^verbatim>\<open>for...in\<close> reads the keys in the
  order in which they were first assigned.
\<close>

definition objectPrototypeMembers :: "string list" where
  "objectPrototypeMembers =
     [''__proto__'', ''constructor'', ''hasOwnProperty'', ''isPrototypeOf'',
      ''propertyIsEnumerable'', ''toLocaleString'', ''toString'', ''valueOf'',
      ''__defineGetter__'', ''__defineSetter__'', ''__lookupGetter__'', ''__lookupSetter__'']"

definition plainIds :: "'a WSNNode_scheme list \<Rightarrow> bool" where
  "plainIds nodes \<longleftrightarrow> (\<forall>node\<in>set nodes. node_id node \<notin> set objectPrototypeMembers)"

definition insertionOrdered :: "'a WSNNode_scheme list \<Rightarrow> bool" where
  "insertionOrdered nodes \<longleftrightarrow>
     (\<forall>node\<in>set nodes. \<not> (node_id node \<noteq> [] \<and> set (node_id node) \<subseteq> set ''0123456789''))"

subsection \<open>Two orders of addition\<close>

text \<open>
  Two sensors at the same place and no base station. A transmission costs \<open>1\<close> and a
  reception \<^verbatim>\<open>2 + 2^(-51)\<close>, which is a double; with an initial energy of \<open>4\<close> every
  product and every subtraction of the run is exact in binary64, so that the embedding
  computes the very numbers the code computes. Round 1 has \<open>s2\<close> send to the leader
  \<open>s1\<close>, round 2 has \<open>s1\<close> send to the leader \<open>s2\<close>; both sensors stay alive.
\<close>

definition exTinyConfig :: PEGASISConfig where
  "exTinyConfig =
     \<lparr> rounds = 2, initialEnergy = 4, transmitEnergy = 1, receiveEnergy = 2 + 1 / 2 ^ 51,
       dataSize = 1, leaderSelectionMethod = roundRobin \<rparr>"

definition exTinyResult :: "PEGASISRound SimulationResult" where
  "exTinyResult =
     \<lparr> rounds_log =
         [\<lparr> roundNumber = 1, energyUsage = [(''s2'', 1), (''s1'', 2 + 1 / 2 ^ 51)], nodesAlive = 2,
            dataTransmitted = 1, chain = [''s1'', ''s2''], leader = Some ''s1'' \<rparr>,
          \<lparr> roundNumber = 2, energyUsage = [(''s1'', 1), (''s2'', 2 + 1 / 2 ^ 51)], nodesAlive = 2,
            dataTransmitted = 1, chain = [''s1'', ''s2''], leader = Some ''s2'' \<rparr>],
       metrics = \<lparr> energyConsumption = 6, networkLifetime = 2, dataDelivered = 2,
                   averageEnergy = Some (1 - 1 / 2 ^ 51) \<rparr> \<rparr>"

subsection \<open>A sensor field\<close>

text \<open>
  Three sensors on a meridian, \<open>a\<close> at kilometre 0, \<open>c\<close> at kilometre 1 and \<open>b\<close> at
  kilometre 2, listed in the order \<open>a, b, c\<close>, and a base station at kilometre 3. The
  greedy chain from \<open>a\<close> is \<open>a, c, b\<close>. With energy-based selection \<open>a\<close> leads round 1
  (all energies equal, first in the chain) and \<open>b\<close>, which has spent least, round 2.
\<close>

definition exFarBase :: WSNNode where
  "exFarBase = \<lparr> node_id = ''base'', position = \<lparr> lat = 3 / 111, lng = 0 \<rparr>, node_type = Base \<rparr>"

definition exA :: WSNNode where
  "exA = \<lparr> node_id = ''a'', position = \<lparr> lat = 0, lng = 0 \<rparr>, node_type = Sensor \<rparr>"

definition exB :: WSNNode where
  "exB = \<lparr> node_id = ''b'', position = \<lparr> lat = 2 / 111, lng = 0 \<rparr>, node_type = Sensor \<rparr>"

definition exC :: WSNNode where
  "exC = \<lparr> node_id = ''c'', position = \<lparr> lat = 1 / 111, lng = 0 \<rparr>, node_type = Sensor \<rparr>"

definition exField :: "WSNNode list" where
  "exField = [exFarBase, exA, exB, exC]"

definition exFieldConfig :: PEGASISConfig where
  "exFieldConfig =
     \<lparr> rounds = 2, initialEnergy = 100, transmitEnergy = 1, receiveEnergy = 1, dataSize = 1,
       leaderSelectionMethod = energyBased \<rparr>"

definition exFieldResult :: "PEGASISRound SimulationResult" where
  "exFieldResult =
     \<lparr> rounds_log =
         [\<lparr> roundNumber = 1, energyUsage = [(''b'', 11 / 10), (''c'', 21 / 10), (''a'', 57 / 25)],
            nodesAlive = 4, dataTransmitted = 14 / 5, chain = [''a'', ''c'', ''b''], leader = Some ''a'' \<rparr>,
          \<lparr> roundNumber = 2, energyUsage = [(''a'', 11 / 10), (''c'', 21 / 10), (''b'', 49 / 25)],
            nodesAlive = 4, dataTransmitted = 14 / 5, chain = [''a'', ''c'', ''b''], leader = Some ''b'' \<rparr>],
       metrics = \<lparr> energyConsumption = runningTotal [11 / 10, 21 / 10, 57 / 25, 11 / 10, 21 / 10, 49 / 25],
                   networkLifetime = 2, dataDelivered = 28 / 5,
                   averageEnergy = Some ((400 - 266 / 25) / 4) \<rparr> \<rparr>"

text \<open>The small network with the sensor \<open>s1\<close> listed twice.\<close>

definition exTwinResult :: "PEGASISRound SimulationResult" where
  "exTwinResult =
     \<lparr> rounds_log =
         [\<lparr> roundNumber = 1, energyUsage = [(''s1'', 1)], nodesAlive = 1, dataTransmitted = 0,
            chain = [''s1'', ''s1''], leader = Some ''s1'' \<rparr>],
       metrics = \<lparr> energyConsumption = jsAdd 0 1, networkLifetime = 1, dataDelivered = 0,
                   averageEnergy = Some (1 / 3) \<rparr> \<rparr>"

subsection \<open>The fallback head\<close>

text \<open>
  What the election and the fallback keep true of a head: it is the id of a non-base
  node, and it is not at or below zero in the ledger with which the round starts.
\<close>

definition headOK :: "'a WSNNode_scheme list \<Rightarrow> ledger \<Rightarrow> string \<Rightarrow> bool" where
  "headOK nodes e h \<longleftrightarrow> (\<exists>node\<in>set nodes. node_id node = h \<and> node_type node \<noteq> Base \<and> \<not> le0 e h)"

text \<open>
  The three-node network with a threshold of \<open>0\<close>: no draw elects a head, and the
  fallback draws index \<open>\<lfloor>0.6 * 2\<rfloor> = 1\<close> of the two live sensors, which is \<open>s2\<close>.
\<close>

definition exLeachConfigNever :: LEACHConfig where
  "exLeachConfigNever =
     \<lparr> rounds = 1, initialEnergy = 1, transmitEnergy = 1, receiveEnergy = 1, dataSize = 1,
       probabilityThreshold = 0 \<rparr>"

definition exFallbackResult :: "LEACHRound SimulationResult" where
  "exFallbackResult =
     \<lparr> rounds_log =
         [\<lparr> roundNumber = 1, energyUsage = [(''s1'', 1), (''s2'', 2)], nodesAlive = 1,
            dataTransmitted = 2, clusterHeads = [''s2''], clusterMembers = [(''s2'', [''s1''])] \<rparr>],
       metrics = \<lparr> energyConsumption = jsAdd (jsAdd 0 1) 2, networkLifetime = 1,
                   dataDelivered = 2, averageEnergy = Some 0 \<rparr> \<rparr>"

subsection \<open>A run that elects no head\<close>



subsection \<open>The leader of a round\<close>



section \<open>Proofs\<close>

subsection \<open>Loops\<close>


lemma forEachE_prefix_invariant:
  assumes "forEachE f xs s = Inr s'"
    and "P pre s"
    and "\<And>pre x s s'. x \<in> set xs \<Longrightarrow> P pre s \<Longrightarrow> f x s = Inr s' \<Longrightarrow> P (pre @ [x]) s'"
  shows "P (pre @ xs) s'"
  using assms
proof (induction xs arbitrary: pre s)
  case Nil
  then show ?case by simp
next
  case (Cons x xs)
  from Cons.prems(1) obtain s1 where s1: "f x s = Inr s1" and rest: "forEachE f xs s1 = Inr s'"
    by (auto split: sum.splits)
  have "P (pre @ [x]) s1" using Cons.prems(2,3) s1 by simp
  from Cons.IH [OF rest this] Cons.prems(3) show ?case by simp
qed

lemma forEachE_invariant:
  assumes "forEachE f xs s = Inr s'"
    and "P s"
    and "\<And>x s s'. x \<in> set xs \<Longrightarrow> P s \<Longrightarrow> f x s = Inr s' \<Longrightarrow> P s'"
  shows "P s'"
  using forEachE_prefix_invariant [where P = "\<lambda>_. P" and pre = "[]", OF assms(1,2)] assms(3) by blast

lemma forEachE_total:
  assumes "P s"
    and "\<And>x s. x \<in> set xs \<Longrightarrow> P s \<Longrightarrow> \<exists>s'. f x s = Inr s' \<and> P s'"
  shows "\<exists>s'. forEachE f xs s = Inr s' \<and> P s'"
  using assms
proof (induction xs arbitrary: s)
  case Nil
  then show ?case by simp
next
  case (Cons x xs)
  from Cons.prems obtain s1 where s1: "f x s = Inr s1" "P s1" by (meson list.set_intros(1))
  from Cons.IH [OF s1(2)] Cons.prems(2) obtain s' where "forEachE f xs s1 = Inr s'" "P s'"
    by (meson list.set_intros(2))
  with s1 show ?case by simp
qed

lemma runningTotal_snoc:
  "runningTotal (usageValues (rs @ [r])) =
     fold (\<lambda>kv t. jsAdd t (snd kv)) (energyUsage r) (runningTotal (usageValues rs))"
  by (simp add: runningTotal_def usageValues_def fold_map comp_def)

lemma countAlive_le: "countAlive nodes e \<le> length nodes"
  by (simp add: countAlive_def)

lemma take_upto: "k \<le> length [1..R] \<Longrightarrow> take k [1..R] = [1..int k]"
  by (auto simp: list_eq_iff_nth_eq)

subsection \<open>The round loop\<close>

lemma runInv_skip: "runInv n R seen s \<Longrightarrow> s_networkDied s \<Longrightarrow> runInv n R (seen @ [x]) s"
  by (auto simp: runInv_def)

lemma runInv_closeRound:
  assumes "runInv (length nodes) R seen s" "\<not> s_networkDied s"
    and "roundNumber rec = rno" "energyUsage rec = u" "nodesAlive rec = countAlive nodes e"
    "dataTransmitted rec = d"
  shows "runInv (length nodes) R (seen @ [rno]) (closeRound nodes rno rec (e, u, d) s)"
  using assms countAlive_le [of nodes e]
  by (auto simp: runInv_def closeRound_def Let_def runningTotal_snoc butlast_append)


lemma pegasisStep_runInv:
  assumes "pegasisStep config nodes bs chn rno s = Inr s'" "runInv (length nodes) R seen s"
  shows "runInv (length nodes) R (seen @ [rno]) s'"
proof (cases "s_networkDied s")
  case True
  with assms show ?thesis by (simp add: pegasisStep_def runInv_skip)
next
  case False
  with assms(1) obtain e u d where
    "s' = closeRound nodes rno
            \<lparr> roundNumber = rno, energyUsage = u, nodesAlive = countAlive nodes e,
              dataTransmitted = d, chain = chn,
              leader = selectLeader config (s_nodeEnergy s) chn rno \<rparr> (e, u, d) s"
    by (auto simp: pegasisStep_def pegasisRound_def Let_def split: sum.splits)
  with assms(2) False show ?thesis by (simp add: runInv_closeRound)
qed

lemma leachStep_runInv:
  assumes "leachStep rnd config nodes rno s = Inr s'" "runInv (length nodes) R seen s"
  shows "runInv (length nodes) R (seen @ [rno]) s'"
proof (cases "s_networkDied s")
  case True
  with assms show ?thesis by (simp add: leachStep_def runInv_skip)
next
  case False
  with assms(1) obtain e u d hs ms i where
    s': "s' = closeRound nodes rno
            \<lparr> roundNumber = rno, energyUsage = u, nodesAlive = countAlive nodes e,
              dataTransmitted = d, clusterHeads = hs, clusterMembers = ms \<rparr>
            (e, u, d) (s \<lparr> s_randomCalls := i \<rparr>)"
    by (auto simp: leachStep_def leachRound_def split: sum.splits)
  from assms(2) have "runInv (length nodes) R seen (s \<lparr> s_randomCalls := i \<rparr>)"
    by (simp add: runInv_def)
  with False show ?thesis unfolding s' by (simp add: runInv_closeRound)
qed

lemma runInv_init:
  "runInv n (rounds config) [] (initState nodes config)"
  "runInv n (rounds config) [] (initLeachState nodes config)"
  by (simp_all add: runInv_def initState_def initLeachState_def runningTotal_def usageValues_def)

lemma simulatePEGASIS_runInv:
  assumes "simulatePEGASIS nodes config = Inr res"
  shows "\<exists>s::PEGASISRound RunState. runInv (length nodes) (rounds config) [1..rounds config] s \<and> res = finish nodes s"
proof -
  from assms obtain s where
    run: "forEachE (pegasisStep config nodes (List.find (\<lambda>node. node_type node = Base) nodes)
            (constructGreedyChain (filter (\<lambda>node. node_type node \<noteq> Base) nodes)))
            [1..rounds config] (initState nodes config) = Inr s"
    and res: "res = finish nodes s"
    by (auto simp: simulatePEGASIS_def Let_def split: sum.splits)
  have "runInv (length nodes) (rounds config) ([] @ [1..rounds config]) s"
    by (rule forEachE_prefix_invariant [OF run, where P = "runInv (length nodes) (rounds config)"])
       (simp_all add: runInv_init pegasisStep_runInv)
  with res show ?thesis by auto
qed

lemma simulateLEACH_runInv:
  assumes "simulateLEACH rnd nodes config = Inr res"
  shows "\<exists>s::LeachState. runInv (length nodes) (rounds config) [1..rounds config] s \<and> res = finish nodes s"
proof -
  from assms obtain s where
    run: "forEachE (leachStep rnd config nodes) [1..rounds config] (initLeachState nodes config) = Inr s"
    and res: "res = finish nodes s"
    by (auto simp: simulateLEACH_def split: sum.splits)
  have "runInv (length nodes) (rounds config) ([] @ [1..rounds config]) s"
    by (rule forEachE_prefix_invariant [OF run, where P = "runInv (length nodes) (rounds config)"])
       (simp_all add: runInv_init leachStep_runInv)
  with res show ?thesis by auto
qed

lemma runInv_logShape:
  assumes "runInv n R [1..R] s"
  shows "logShape n R (s_rounds s)"
proof -
  let ?log = "s_rounds s"
  from assms have len: "length ?log \<le> length [1..R]"
    and num: "map roundNumber ?log = take (length ?log) [1..R]"
    by (simp_all add: runInv_def)
  from num len have 1: "map roundNumber ?log = [1..int (length ?log)]"
    by (simp only: take_upto)
  from len have 2: "int (length ?log) \<le> max 0 R" by simp
  have 3: "(\<forall>r\<in>set ?log. nodesAlive r = n) \<longrightarrow> int (length ?log) = max 0 R"
  proof (cases "s_networkDied s")
    case True
    with assms have "?log \<noteq> []" "nodesAlive (last ?log) < n" by (simp_all add: runInv_def)
    then have "\<not> (\<forall>r\<in>set ?log. nodesAlive r = n)" using last_in_set by fastforce
    then show ?thesis by blast
  next
    case False
    with assms have "length ?log = length [1..R]" by (simp add: runInv_def)
    then show ?thesis by simp
  qed
  have 4: "\<forall>i<length ?log. nodesAlive (?log ! i) < n \<longrightarrow> Suc i = length ?log"
  proof (intro allI impI)
    fix i assume i: "i < length ?log" and dead: "nodesAlive (?log ! i) < n"
    show "Suc i = length ?log"
    proof (cases "s_networkDied s")
      case True
      with assms have bl: "\<forall>r\<in>set (butlast ?log). nodesAlive r = n" by (simp add: runInv_def)
      show ?thesis
      proof (rule ccontr)
        assume "Suc i \<noteq> length ?log"
        with i have "i < length (butlast ?log)" by simp
        then have "butlast ?log ! i \<in> set (butlast ?log)" by (rule nth_mem)
        moreover have "butlast ?log ! i = ?log ! i" using \<open>i < length (butlast ?log)\<close> by (simp add: nth_butlast)
        ultimately show False using bl dead by auto
      qed
    next
      case False
      with assms have "\<forall>r\<in>set ?log. nodesAlive r = n" by (simp add: runInv_def)
      with i dead show ?thesis using nth_mem by fastforce
    qed
  qed
  from 1 2 3 4 show ?thesis unfolding logShape_def by blast
qed

lemma last_upto_1: "1 \<le> k \<Longrightarrow> last [1..k] = k"
  by (subst upto_rec2) simp_all

lemma runInv_lifetimeShape:
  assumes "runInv n R [1..R] s"
  shows "lifetimeShape n R (s_rounds s) (s_networkLifetime s)"
proof (cases "s_networkDied s")
  case False
  with assms have "s_networkLifetime s = R" "\<forall>r\<in>set (s_rounds s). nodesAlive r = n"
    by (simp_all add: runInv_def)
  then show ?thesis unfolding lifetimeShape_def using nth_mem by fastforce
next
  case True
  let ?log = "s_rounds s"
  from runInv_logShape [OF assms]
  have num: "map roundNumber ?log = [1..int (length ?log)]"
    and len: "int (length ?log) \<le> max 0 R"
    and lastonly: "\<forall>i<length ?log. nodesAlive (?log ! i) < n \<longrightarrow> Suc i = length ?log"
    by (simp_all add: logShape_def)
  from True assms have ne: "?log \<noteq> []" and dead: "nodesAlive (last ?log) < n"
    and lt: "s_networkLifetime s = roundNumber (last ?log)"
    by (simp_all add: runInv_def)
  from ne have "roundNumber (last ?log) = last (map roundNumber ?log)" by (simp add: last_map)
  also from ne have "\<dots> = int (length ?log)" by (simp add: num last_upto_1 Suc_leI)
  finally have lt': "s_networkLifetime s = int (length ?log)" using lt by simp
  from ne len have "int (length ?log) \<le> R" by (cases ?log) auto
  moreover have "\<not> (\<forall>r\<in>set ?log. nodesAlive r = n)" using ne dead last_in_set by fastforce
  ultimately show ?thesis unfolding lifetimeShape_def using lt' lastonly by auto
qed

subsection \<open>The small network, evaluated\<close>

lemmas ledger_eval = le0_def gt0_def spend_def charge_def initEnergy_def countAlive_def
  findNode_def key_def calculateDistance_def closeRound_def finish_def Let_def

lemmas pegasis_eval = simulatePEGASIS_def pegasisStep_def pegasisRound_def pegasisPhases_def
  leftSide_def rightSide_def leaderToBase_def relayHop_def selectLeader_def indexOf_def
  elemAt_def jsRem_def energyGreater_def initState_def nearestIndexOf_def exPegasisConfig_def

lemmas leach_eval = simulateLEACH_def leachStep_def leachRound_def leachTopology_def
  fallbackHead_def electHeads_def electStep_def assignStep_def nearestStep_def leachPhases_def
  memberPhase_def clusterSend_def memberSend_def basePhase_def headSend_def aggregatedSize_def
  initLeachState_def exLeachConfig_def

lemma exPegasis_run3: "simulatePEGASIS [exBase, exSensor] (exPegasisConfig 3) = Inr exPegasisResult"
  by (simp add: ledger_eval pegasis_eval exBase_def exSensor_def exPegasisResult_def upto.simps)

lemma exPegasis_run2: "simulatePEGASIS [exBase, exSensor] (exPegasisConfig 2) = Inr exPegasisResult"
  by (simp add: ledger_eval pegasis_eval exBase_def exSensor_def exPegasisResult_def upto.simps)

lemma exLeach_run3: "simulateLEACH (\<lambda>_. 0) [exBase, exSensor] (exLeachConfig 3) = Inr exLeachResult"
  by (simp add: ledger_eval leach_eval exBase_def exSensor_def exLeachResult_def upto.simps)

lemma exLeach_run2: "simulateLEACH (\<lambda>_. 0) [exBase, exSensor] (exLeachConfig 2) = Inr exLeachResult"
  by (simp add: ledger_eval leach_eval exBase_def exSensor_def exLeachResult_def upto.simps)

subsection \<open>The greedy chain\<close>

lemma mset_remove_nth:
  assumes "i < length xs"
  shows "mset (map f (take i xs @ drop (Suc i) xs)) + {#f (xs ! i)#} = mset (map f xs)"
proof -
  have "xs = take i xs @ xs ! i # drop (Suc i) xs" using assms by (rule id_take_nth_drop)
  then have "mset (map f xs) = mset (map f (take i xs @ xs ! i # drop (Suc i) xs))" by simp
  then show ?thesis by simp
qed

lemma greedyLoop_mset: "mset (greedyLoop c ns ch) = mset ch + mset (map node_id ns)"
proof (induction c ns ch rule: greedyLoop.induct)
  case (1 currentNode chn)
  then show ?case by simp
next
  case (2 currentNode n0 rest chn)
  let ?i = "nearestIndexOf currentNode n0 rest"
  have i: "?i < length (n0 # rest)" using nearestIndexOf_bound [of currentNode n0 rest] by simp
  have "mset (greedyLoop currentNode (n0 # rest) chn) =
          mset (chn @ [node_id ((n0 # rest) ! ?i)]) +
          mset (map node_id (take ?i (n0 # rest) @ drop (Suc ?i) (n0 # rest)))"
    using "2.IH" [OF refl refl] by (simp add: Let_def)
  also have "\<dots> = mset chn + (mset (map node_id (take ?i (n0 # rest) @ drop (Suc ?i) (n0 # rest))) +
                {#node_id ((n0 # rest) ! ?i)#})"
    by simp
  also have "\<dots> = mset chn + mset (map node_id (n0 # rest))"
    by (simp only: mset_remove_nth [OF i])
  finally show ?case .
qed

lemma constructGreedyChain_mset: "mset (constructGreedyChain ns) = mset (map node_id ns)"
  by (cases ns rule: constructGreedyChain.cases) (simp_all add: greedyLoop_mset del: greedyLoop.simps)



subsection \<open>One round of PEGASIS\<close>

lemma pegasisStep_cases:
  assumes "pegasisStep config nodes bs chn rno s = Inr s'"
  obtains (skipped) "s_networkDied s" "s' = s"
  | (ran) e u d where "\<not> s_networkDied s"
      "pegasisPhases config nodes bs chn (selectLeader config (s_nodeEnergy s) chn rno) (s_nodeEnergy s)
         = Inr (e, u, d)"
      "s' = closeRound nodes rno
              \<lparr> roundNumber = rno, energyUsage = u, nodesAlive = countAlive nodes e,
                dataTransmitted = d, chain = chn,
                leader = selectLeader config (s_nodeEnergy s) chn rno \<rparr> (e, u, d) s"
proof (cases "s_networkDied s")
  case True
  with assms have "s' = s" by (simp add: pegasisStep_def)
  with True show ?thesis by (rule skipped)
next
  case False
  let ?ldr = "selectLeader config (s_nodeEnergy s) chn rno"
  from False assms have r: "pegasisRound config nodes bs chn rno s = Inr s'"
    by (simp add: pegasisStep_def)
  show ?thesis
  proof (cases "pegasisPhases config nodes bs chn ?ldr (s_nodeEnergy s)")
    case (Inl err)
    with r show ?thesis by (simp add: pegasisRound_def Let_def)
  next
    case (Inr st)
    obtain e u d where st: "st = (e, u, d)" by (cases st)
    from r Inr st have c: "s' = closeRound nodes rno
              \<lparr> roundNumber = rno, energyUsage = u, nodesAlive = countAlive nodes e,
                dataTransmitted = d, chain = chn, leader = ?ldr \<rparr> (e, u, d) s"
      by (simp add: pegasisRound_def Let_def)
    from Inr st have b: "pegasisPhases config nodes bs chn ?ldr (s_nodeEnergy s) = Inr (e, u, d)"
      by simp
    from False b c show ?thesis by (rule ran)
  qed
qed

lemma s_rounds_closeRound [simp]:
  "s_rounds (closeRound nodes rno rec st s) = s_rounds s @ [rec]"
  by (cases st) (simp add: closeRound_def Let_def)

lemma s_nodeEnergy_closeRound [simp]:
  "s_nodeEnergy (closeRound nodes rno rec (e, u, d) s) = e"
  by (simp add: closeRound_def Let_def)

lemma pegasisStep_chain:
  assumes "pegasisStep config nodes bs chn rno s = Inr s'" "\<forall>r\<in>set (s_rounds s). chain r = chn"
  shows "\<forall>r\<in>set (s_rounds s'). chain r = chn"
  using assms(1)
proof (cases rule: pegasisStep_cases)
  case skipped
  with assms(2) show ?thesis by simp
next
  case (ran e u d)
  with assms(2) show ?thesis by simp
qed

lemma simulatePEGASIS_run:
  assumes "simulatePEGASIS nodes config = Inr res"
  obtains s :: "PEGASISRound RunState" where
    "forEachE (pegasisStep config nodes (List.find (\<lambda>node. node_type node = Base) nodes)
        (constructGreedyChain (filter (\<lambda>node. node_type node \<noteq> Base) nodes)))
        [1..rounds config] (initState nodes config) = Inr s"
    "res = finish nodes s"
  using assms by (auto simp: simulatePEGASIS_def Let_def split: sum.splits)

lemma count_one:
  assumes m: "mset chn = mset (map node_id sensors)" and dist: "distinct (map node_id sensors)"
    and "node \<in> set sensors"
  shows "count_list chn (node_id node) = 1"
proof -
  from assms(3) have "node_id node \<in> set (map node_id sensors)" by simp
  with dist have "count (mset (map node_id sensors)) (node_id node) = 1"
    by (simp only: distinct_count_atmost_1 if_True)
  with m show "count_list chn (node_id node) = 1" by (simp only: count_mset [symmetric])
qed

subsection \<open>Ledger operations\<close>

lemma map_of_spend:
  "map_of (spend e k c) k' = (if k' = k then map_option (\<lambda>v. v - c) (map_of e k) else map_of e k')"
  by (auto simp: spend_def AList.update_conv' split: option.splits)

lemma map_of_charge:
  "map_of (charge u k c) k' =
     (if k' = k then Some ((case map_of u k of None \<Rightarrow> 0 | Some v \<Rightarrow> v) + c) else map_of u k')"
  by (simp add: charge_def AList.update_conv')

lemma gt0_not_le0: "gt0 e k \<Longrightarrow> \<not> le0 e k"
  by (auto simp: gt0_def le0_def split: option.splits)


subsection \<open>Leader selection\<close>

lemma jsRem_nonneg: "0 \<le> a \<Longrightarrow> 0 < b \<Longrightarrow> jsRem a b = a mod b"
  by (cases "a = 0") (simp_all add: jsRem_def)

lemma selectLeader_roundRobin:
  assumes "leaderSelectionMethod config = roundRobin" "chn \<noteq> []" "1 \<le> rno"
  shows "selectLeader config e chn rno = Some (chn ! nat ((rno - 1) mod int (length chn)))"
proof -
  from assms(2) have len: "0 < int (length chn)" by simp
  with assms(3) have "jsRem (rno - 1) (int (length chn)) = (rno - 1) mod int (length chn)"
    by (simp add: jsRem_nonneg)
  moreover from len have "0 \<le> (rno - 1) mod int (length chn)"
    "(rno - 1) mod int (length chn) < int (length chn)"
    by simp_all
  ultimately show ?thesis using assms(1,2) by (simp add: selectLeader_def elemAt_def)
qed




subsection \<open>Costs are never negative\<close>

lemma ledgerLe_refl: "ledgerLe e e"
  by (simp add: ledgerLe_def)

lemma ledgerLe_trans: "ledgerLe e2 e1 \<Longrightarrow> ledgerLe e1 e0 \<Longrightarrow> ledgerLe e2 e0"
  unfolding ledgerLe_def by (meson order_trans)

lemma spend_le: "0 \<le> c \<Longrightarrow> ledgerLe (spend e k c) e"
  by (auto simp: ledgerLe_def map_of_spend)

lemma calculateDistance_nonneg: "0 \<le> calculateDistance a b"
  by (simp add: calculateDistance_def Let_def)

lemma forEachE_ledgerLe:
  assumes "forEachE f xs st = Inr st'"
    and "\<And>x s s'. x \<in> set xs \<Longrightarrow> f x s = Inr s' \<Longrightarrow> ledgerLe (fst s') (fst s)"
  shows "ledgerLe (fst st') (fst st)"
proof (rule forEachE_invariant [OF assms(1), where P = "\<lambda>s. ledgerLe (fst s) (fst st)"])
  show "ledgerLe (fst st) (fst st)" by (rule ledgerLe_refl)
next
  fix x s s'
  assume "x \<in> set xs" "ledgerLe (fst s) (fst st)" "f x s = Inr s'"
  then show "ledgerLe (fst s') (fst st)" using assms(2) ledgerLe_trans by blast
qed

lemma relayHop_le:
  assumes "costsNonneg config" "relayHop config nodes sid rid st = Inr st'"
  shows "ledgerLe (fst st') (fst st)"
proof -
  obtain e u d where st: "st = (e, u, d)" by (cases st)
  show ?thesis
  proof (cases "le0 e (key sid)")
    case True
    with assms(2) st show ?thesis by (simp add: relayHop_def ledgerLe_refl)
  next
    case False
    with assms(2) st obtain sender receiver where
      f: "findNode nodes sid = Some sender" "findNode nodes rid = Some receiver"
      by (auto simp: relayHop_def split: option.splits)
    define tc where "tc = transmitEnergy config * dataSize config *
                 (1 + 0.1 * calculateDistance (position sender) (position receiver))"
    define rc where "rc = receiveEnergy config * dataSize config"
    from assms(1) have tc: "0 \<le> tc" and rc: "0 \<le> rc"
      using calculateDistance_nonneg [of "position sender" "position receiver"]
      by (simp_all add: costsNonneg_def tc_def rc_def)
    from assms(2) st False f have
      "fst st' = spend e (key sid) tc \<or> fst st' = spend (spend e (key sid) tc) (key rid) rc"
      by (auto simp: relayHop_def Let_def tc_def rc_def split: if_splits)
    then show ?thesis
    proof
      assume "fst st' = spend e (key sid) tc"
      with tc st show ?thesis by (simp add: spend_le)
    next
      assume "fst st' = spend (spend e (key sid) tc) (key rid) rc"
      with tc rc st show ?thesis using ledgerLe_trans [OF spend_le spend_le] by simp
    qed
  qed
qed

lemma leaderToBase_le:
  assumes "costsNonneg config" "leaderToBase config nodes bs ldr st = Inr st'"
  shows "ledgerLe (fst st') (fst st)"
proof -
  obtain e u d where st: "st = (e, u, d)" by (cases st)
  show ?thesis
  proof (cases "bs = None \<or> \<not> gt0 e (key ldr)")
    case True
    with assms(2) st show ?thesis by (auto simp: leaderToBase_def ledgerLe_refl split: option.splits)
  next
    case False
    then obtain b where b: "bs = Some b" and alive: "gt0 e (key ldr)" by auto
    with assms(2) st obtain leaderNode where f: "findNode nodes ldr = Some leaderNode"
      by (auto simp: leaderToBase_def split: option.splits)
    define tc where "tc = transmitEnergy config * (dataSize config * 0.8) *
                 (1 + 0.2 * calculateDistance (position leaderNode) (position b))"
    from assms(1) have tc: "0 \<le> tc"
      using calculateDistance_nonneg [of "position leaderNode" "position b"]
      by (simp add: costsNonneg_def tc_def)
    from assms(2) st b alive f have "fst st' = spend e (key ldr) tc"
      by (auto simp: leaderToBase_def Let_def tc_def)
    with tc st show ?thesis by (simp add: spend_le)
  qed
qed

lemma pegasisPhases_le:
  assumes "costsNonneg config" "pegasisPhases config nodes bs chn ldr e = Inr st'"
  shows "ledgerLe (fst st') e"
proof -
  from assms(2) obtain st1 st2 where
    l: "leftSide config nodes chn (indexOf chn ldr) (e, [], 0) = Inr st1"
    and r: "rightSide config nodes chn (indexOf chn ldr) st1 = Inr st2"
    and b: "leaderToBase config nodes bs ldr st2 = Inr st'"
    by (auto simp: pegasisPhases_def Let_def split: sum.splits)
  from l have "ledgerLe (fst st1) (fst (e, [] :: ledger, 0 :: real))"
    unfolding leftSide_def by (rule forEachE_ledgerLe) (rule relayHop_le [OF assms(1)])
  moreover from r have "ledgerLe (fst st2) (fst st1)"
    unfolding rightSide_def by (rule forEachE_ledgerLe) (rule relayHop_le [OF assms(1)])
  moreover from b have "ledgerLe (fst st') (fst st2)" by (rule leaderToBase_le [OF assms(1)])
  ultimately show ?thesis using ledgerLe_trans by fastforce
qed

lemma pegasisStep_le:
  assumes "costsNonneg config" "pegasisStep config nodes bs chn rno s = Inr s'"
  shows "ledgerLe (s_nodeEnergy s') (s_nodeEnergy s)"
  using assms(2)
proof (cases rule: pegasisStep_cases)
  case skipped
  then show ?thesis by (simp add: ledgerLe_refl)
next
  case (ran e u d)
  from pegasisPhases_le [OF assms(1) ran(2)] ran(3) show ?thesis by simp
qed


lemma leachStep_cases:
  assumes "leachStep rnd config nodes rno s = Inr s'"
  obtains (skipped) "s_networkDied s" "s' = s"
  | (ran) heads members i e u d where "\<not> s_networkDied s"
      "leachTopology rnd config nodes (s_nodeEnergy s) (s_randomCalls s) = Inr (heads, members, i)"
      "leachPhases config nodes heads members (s_nodeEnergy s) = Inr (e, u, d)"
      "s' = closeRound nodes rno
              \<lparr> roundNumber = rno, energyUsage = u, nodesAlive = countAlive nodes e,
                dataTransmitted = d, clusterHeads = heads, clusterMembers = members \<rparr>
              (e, u, d) (s \<lparr> s_randomCalls := i \<rparr>)"
proof (cases "s_networkDied s")
  case True
  with assms have "s' = s" by (simp add: leachStep_def)
  with True show ?thesis by (rule skipped)
next
  case False
  with assms have r: "leachRound rnd config nodes rno s = Inr s'" by (simp add: leachStep_def)
  show ?thesis
  proof (cases "leachTopology rnd config nodes (s_nodeEnergy s) (s_randomCalls s)")
    case (Inl err)
    with r show ?thesis by (simp add: leachRound_def)
  next
    case (Inr t)
    obtain heads members i where t: "t = (heads, members, i)" by (cases t)
    show ?thesis
    proof (cases "leachPhases config nodes heads members (s_nodeEnergy s)")
      case (Inl err)
      with r Inr t show ?thesis by (simp add: leachRound_def)
    next
      case ph: (Inr st)
      obtain e u d where st: "st = (e, u, d)" by (cases st)
      from r Inr t ph st have c: "s' = closeRound nodes rno
              \<lparr> roundNumber = rno, energyUsage = u, nodesAlive = countAlive nodes e,
                dataTransmitted = d, clusterHeads = heads, clusterMembers = members \<rparr>
              (e, u, d) (s \<lparr> s_randomCalls := i \<rparr>)"
        by (simp add: leachRound_def)
      from Inr t have a: "leachTopology rnd config nodes (s_nodeEnergy s) (s_randomCalls s) = Inr (heads, members, i)"
        by simp
      from ph st have b: "leachPhases config nodes heads members (s_nodeEnergy s) = Inr (e, u, d)"
        by simp
      from False a b c show ?thesis by (rule ran)
    qed
  qed
qed

lemma memberSend_le:
  assumes "costsNonneg config" "memberSend config nodes headId memberId st = Inr st'"
  shows "ledgerLe (fst st') (fst st)"
proof -
  obtain e u d where st: "st = (e, u, d)" by (cases st)
  from assms(2) st obtain member head where
    f: "findNode nodes (Some memberId) = Some member" "findNode nodes (Some headId) = Some head"
    by (auto simp: memberSend_def split: option.splits)
  define tc where "tc = transmitEnergy config * dataSize config *
                 (1 + 0.1 * calculateDistance (position member) (position head))"
  define rc where "rc = receiveEnergy config * dataSize config"
  from assms(1) have tc: "0 \<le> tc" and rc: "0 \<le> rc"
    using calculateDistance_nonneg [of "position member" "position head"]
    by (simp_all add: costsNonneg_def tc_def rc_def)
  from assms(2) st f have "fst st' = spend (spend e memberId tc) headId rc"
    by (auto simp: memberSend_def Let_def tc_def rc_def)
  with tc rc st show ?thesis using ledgerLe_trans [OF spend_le spend_le] by simp
qed

lemma clusterSend_le:
  assumes "costsNonneg config" "clusterSend config nodes members headId st = Inr st'"
  shows "ledgerLe (fst st') (fst st)"
proof -
  from assms(2) obtain memberIds where
    "forEachE (memberSend config nodes headId) memberIds st = Inr st'"
    by (auto simp: clusterSend_def split: option.splits)
  then show ?thesis by (rule forEachE_ledgerLe) (rule memberSend_le [OF assms(1)])
qed

lemma headSend_le:
  assumes "costsNonneg config" "headSend config nodes bs members headId st = Inr st'"
  shows "ledgerLe (fst st') (fst st)"
proof -
  obtain e u d where st: "st = (e, u, d)" by (cases st)
  from assms(2) st obtain head b ms where
    f: "findNode nodes (Some headId) = Some head" "bs = Some b" "map_of members headId = Some ms"
    by (auto simp: headSend_def Let_def split: option.splits)
  define tc where "tc = transmitEnergy config * aggregatedSize config (length ms) *
                 (1 + 0.2 * calculateDistance (position head) (position b))"
  from assms(1) have tc: "0 \<le> tc"
    using calculateDistance_nonneg [of "position head" "position b"]
    by (simp add: costsNonneg_def tc_def aggregatedSize_def)
  from assms(2) st f have "fst st' = spend e headId tc"
    by (auto simp: headSend_def Let_def tc_def)
  with tc st show ?thesis by (simp add: spend_le)
qed

lemma leachPhases_le:
  assumes "costsNonneg config" "leachPhases config nodes heads members e = Inr st'"
  shows "ledgerLe (fst st') e"
proof -
  from assms(2) obtain st1 where
    m: "memberPhase config nodes heads members (e, [], 0) = Inr st1"
    and b: "basePhase config nodes heads members st1 = Inr st'"
    by (auto simp: leachPhases_def split: sum.splits)
  from m have "ledgerLe (fst st1) (fst (e, [] :: ledger, 0 :: real))"
    unfolding memberPhase_def by (rule forEachE_ledgerLe) (rule clusterSend_le [OF assms(1)])
  moreover from b have "ledgerLe (fst st') (fst st1)"
    unfolding basePhase_def by (rule forEachE_ledgerLe) (rule headSend_le [OF assms(1)])
  ultimately show ?thesis using ledgerLe_trans by fastforce
qed

lemma leachStep_le:
  assumes "costsNonneg config" "leachStep rnd config nodes rno s = Inr s'"
  shows "ledgerLe (s_nodeEnergy s') (s_nodeEnergy s)"
  using assms(2)
proof (cases rule: leachStep_cases)
  case skipped
  then show ?thesis by (simp add: ledgerLe_refl)
next
  case (ran heads members i e u d)
  from leachPhases_le [OF assms(1) ran(3)] ran(4) show ?thesis by simp
qed

lemma forEachE_run_le:
  assumes "forEachE f rs s = Inr s'"
    and "\<And>x s s'. f x s = Inr s' \<Longrightarrow> ledgerLe (s_nodeEnergy s') (s_nodeEnergy s)"
  shows "ledgerLe (s_nodeEnergy s') (s_nodeEnergy s)"
proof (rule forEachE_invariant [OF assms(1), where P = "\<lambda>t. ledgerLe (s_nodeEnergy t) (s_nodeEnergy s)"])
  show "ledgerLe (s_nodeEnergy s) (s_nodeEnergy s)" by (rule ledgerLe_refl)
next
  fix x t t'
  assume "ledgerLe (s_nodeEnergy t) (s_nodeEnergy s)" "f x t = Inr t'"
  then show "ledgerLe (s_nodeEnergy t') (s_nodeEnergy s)" using assms(2) ledgerLe_trans by blast
qed

lemma map_of_fold_update:
  "map_of (fold (\<lambda>node e. AList.update (node_id node) e0 e) nodes acc) k =
     (if k \<in> node_id ` set nodes then Some e0 else map_of acc k)"
  by (induction nodes arbitrary: acc) (auto simp: AList.update_conv')

lemma map_of_initEnergy:
  "map_of (initEnergy nodes e0) k = (if k \<in> node_id ` set nodes then Some e0 else None)"
  by (simp add: initEnergy_def map_of_fold_update)

lemma neverIncreasesI:
  assumes "ledgerLe e1 (initEnergy nodes e0)" "ledgerLe e2 e1"
  shows "neverIncreases nodes e0 e1 e2"
  unfolding neverIncreases_def
proof
  fix node assume "node \<in> set nodes"
  then have "map_of (initEnergy nodes e0) (node_id node) = Some e0" by (simp add: map_of_initEnergy)
  with assms(1) obtain v1 where v1: "map_of e1 (node_id node) = Some v1" "v1 \<le> e0"
    unfolding ledgerLe_def by blast
  with assms(2) obtain v2 where "map_of e2 (node_id node) = Some v2" "v2 \<le> v1"
    unfolding ledgerLe_def by blast
  with v1 show "\<exists>v1 v2. map_of e1 (node_id node) = Some v1 \<and> map_of e2 (node_id node) = Some v2 \<and>
        v2 \<le> v1 \<and> v1 \<le> e0" by blast
qed

lemma exLeach_states:
  "forEachE (leachStep (\<lambda>_. 0) (exLeachConfig 3) [exBase, exSensor]) [1]
     (initLeachState [exBase, exSensor] (exLeachConfig 3)) = Inr exLeachState1"
  "forEachE (leachStep (\<lambda>_. 0) (exLeachConfig 3) [exBase, exSensor]) [2] exLeachState1
     = Inr exLeachState2"
  by (simp_all add: ledger_eval leach_eval exBase_def exSensor_def exLeachState1_def
        exLeachState2_def exLeachResult_def)

lemma exPegasis_states:
  "forEachE (pegasisStep (exPegasisConfig 3) [exBase, exSensor] (Some exBase) [''s1'']) [1]
     (initState [exBase, exSensor] (exPegasisConfig 3)) = Inr exPegasisState1"
  "forEachE (pegasisStep (exPegasisConfig 3) [exBase, exSensor] (Some exBase) [''s1'']) [2]
     exPegasisState1 = Inr exPegasisState2"
  by (simp_all add: ledger_eval pegasis_eval exBase_def exSensor_def exPegasisState1_def
        exPegasisState2_def exPegasisResult_def)

subsection \<open>The head-to-base phase\<close>

lemma headSend_data:
  assumes "headSend config nodes bs members headId (e, u, d) = Inr (e', u', d')"
  shows "d' = d + aggregatedSize config (memberCount members headId)"
  using assms
  by (auto simp: headSend_def Let_def memberCount_def split: option.splits)

lemma forEachE_headSend_data:
  "forEachE (headSend config nodes bs members) heads (e, u, d) = Inr (e', u', d') \<Longrightarrow>
   d' = d + (\<Sum>h\<leftarrow>heads. aggregatedSize config (memberCount members h))"
proof (induction heads arbitrary: e u d)
  case Nil
  then show ?case by simp
next
  case (Cons h heads)
  from Cons.prems obtain e1 u1 d1 where
    1: "headSend config nodes bs members h (e, u, d) = Inr (e1, u1, d1)"
    and 2: "forEachE (headSend config nodes bs members) heads (e1, u1, d1) = Inr (e', u', d')"
    by (auto split: sum.splits)
  from headSend_data [OF 1] Cons.IH [OF 2] show ?case by simp
qed

subsection \<open>One round of LEACH\<close>

lemma fallbackHead_empty:
  assumes "fallbackHead rnd e nodes t = ([], members, i)"
  shows "\<forall>node\<in>set nodes. \<not> (gt0 e (node_id node) \<and> node_type node \<noteq> Base)"
proof -
  obtain heads0 members0 i0 where t: "t = (heads0, members0, i0)" by (cases t)
  let ?avail = "map node_id (filter (\<lambda>node. gt0 e (node_id node) \<and> node_type node \<noteq> Base) nodes)"
  from assms t have "?avail = []"
    by (cases "heads0 = []"; cases "?avail = []") (simp_all add: fallbackHead_def Let_def)
  then show ?thesis by (simp add: filter_empty_conv)
qed

lemma leachTopology_heads:
  assumes "leachTopology rnd config nodes e i = Inr (heads, members, i')"
  shows "\<exists>members0. fallbackHead rnd e nodes (electHeads rnd config e nodes i) = (heads, members0, i')"
proof -
  obtain h m j where f: "fallbackHead rnd e nodes (electHeads rnd config e nodes i) = (h, m, j)"
    by (cases "fallbackHead rnd e nodes (electHeads rnd config e nodes i)")
  with assms show ?thesis by (auto simp: leachTopology_def split: sum.splits)
qed

lemma leachPhases_no_heads: "leachPhases config nodes [] members e = Inr (e, [], 0)"
  by (simp add: leachPhases_def memberPhase_def basePhase_def)

lemma countAlive_all: "\<not> countAlive nodes e < length nodes \<Longrightarrow> \<forall>node\<in>set nodes. gt0 e (node_id node)"
  unfolding countAlive_def by (meson length_filter_less)

lemma countAlive_none: "\<forall>node\<in>set nodes. \<not> gt0 e (node_id node) \<Longrightarrow> countAlive nodes e = 0"
  by (simp add: countAlive_def filter_empty_conv)

lemma s_networkDied_closeRound [simp]:
  "s_networkDied (closeRound nodes rno rec (e, u, d) s) =
     (s_networkDied s \<or> countAlive nodes e < length nodes)"
  by (auto simp: closeRound_def Let_def)

lemma leachStep_headsInv:
  assumes step: "leachStep rnd config nodes rno s = Inr s'"
    and sensor: "\<exists>node\<in>set nodes. node_type node \<noteq> Base"
    and inv: "headsInv nodes e0 s"
  shows "headsInv nodes e0 s'"
  using step
proof (cases rule: leachStep_cases)
  case skipped
  with inv show ?thesis by simp
next
  case (ran heads members i e u d)
  let ?E = "s_nodeEnergy s"
  have new: "0 < countAlive nodes e \<longrightarrow> heads \<noteq> []"
  proof (intro impI notI)
    assume alive: "0 < countAlive nodes e" and "heads = []"
    with ran(2,3) have e: "e = ?E" by (simp add: leachPhases_no_heads)
    from leachTopology_heads [OF ran(2)] \<open>heads = []\<close>
    have none: "\<forall>node\<in>set nodes. \<not> (gt0 ?E (node_id node) \<and> node_type node \<noteq> Base)"
      using fallbackHead_empty by blast
    from sensor obtain n0 where n0: "n0 \<in> set nodes" "node_type n0 \<noteq> Base" by blast
    with none have dead0: "\<not> gt0 ?E (node_id n0)" by blast
    from inv ran(1) have "(\<forall>node\<in>set nodes. gt0 ?E (node_id node)) \<or> ?E = initEnergy nodes e0"
      by (simp add: headsInv_def)
    then have "\<forall>node\<in>set nodes. \<not> gt0 ?E (node_id node)"
    proof
      assume "\<forall>node\<in>set nodes. gt0 ?E (node_id node)"
      with n0 dead0 show ?thesis by blast
    next
      assume init: "?E = initEnergy nodes e0"
      with n0 dead0 have "\<not> 0 < e0" by (simp add: gt0_def map_of_initEnergy)
      with init show ?thesis by (simp add: gt0_def map_of_initEnergy)
    qed
    then have "countAlive nodes e = 0" unfolding e by (rule countAlive_none)
    with alive show False by simp
  qed
  from inv have old: "\<forall>r\<in>set (s_rounds s). 0 < nodesAlive r \<longrightarrow> clusterHeads r \<noteq> []"
    by (simp add: headsInv_def)
  have live: "\<not> s_networkDied s' \<longrightarrow> (\<forall>node\<in>set nodes. gt0 (s_nodeEnergy s') (node_id node))"
    unfolding ran(4) using countAlive_all [of nodes e] by simp
  from old new live show ?thesis unfolding headsInv_def ran(4) by simp
qed

lemma simulateLEACH_run:
  assumes "simulateLEACH rnd nodes config = Inr res"
  obtains s where
    "forEachE (leachStep rnd config nodes) [1..rounds config] (initLeachState nodes config) = Inr s"
    "res = finish nodes s"
  using assms by (auto simp: simulateLEACH_def split: sum.splits)

subsection \<open>Runs without a base station\<close>

lemma findNode_Some:
  "k \<in> node_id ` set nodes \<Longrightarrow> \<exists>node. findNode nodes (Some k) = Some node"
  by (cases "List.find (\<lambda>n. node_id n = k) nodes") (auto simp: findNode_def find_None_iff)

lemma elemAt_Some: "0 \<le> i \<Longrightarrow> i < int (length xs) \<Longrightarrow> \<exists>k\<in>set xs. elemAt xs i = Some k"
  by (simp add: elemAt_def)

lemma relayHop_total:
  assumes "\<exists>k\<in>node_id ` set nodes. sid = Some k" "\<exists>k\<in>node_id ` set nodes. rid = Some k"
  shows "\<exists>st'. relayHop config nodes sid rid st = Inr st'"
proof -
  from assms obtain sender receiver where
    "findNode nodes sid = Some sender" "findNode nodes rid = Some receiver"
    using findNode_Some by blast
  then show ?thesis by (cases st) (simp add: relayHop_def Let_def)
qed

lemma indexFrom_bounds: "indexFrom xs k i = -1 \<or> (i \<le> indexFrom xs k i \<and> indexFrom xs k i < i + int (length xs))"
  by (induction xs k i rule: indexFrom.induct) auto

lemma indexFrom_found: "k \<in> set xs \<Longrightarrow> 0 \<le> i \<Longrightarrow> 0 \<le> indexFrom xs k i"
  by (induction xs k i rule: indexFrom.induct) auto

lemma indexOf_bounds: "- 1 \<le> indexOf xs k \<and> indexOf xs k < int (length xs)"
proof (cases k)
  case None
  then show ?thesis by (simp add: indexOf_def)
next
  case (Some a)
  with indexFrom_bounds [of xs a 0] show ?thesis by (auto simp: indexOf_def)
qed

lemma indexOf_upper: "indexOf xs k < int (length xs)"
  using indexOf_bounds [of xs k] by simp

lemma indexOf_found: "k \<in> set xs \<Longrightarrow> 0 \<le> indexOf xs (Some k)"
  by (simp add: indexOf_def indexFrom_found)

lemma forEachE_always:
  assumes "\<And>x s. x \<in> set xs \<Longrightarrow> \<exists>s'. f x s = Inr s'"
  shows "\<exists>s'. forEachE f xs s = Inr s'"
  using forEachE_total [of "\<lambda>_. True" s xs f] assms by simp

lemma leftSide_total:
  assumes "set chn \<subseteq> node_id ` set nodes"
  shows "\<exists>st'. leftSide config nodes chn (indexOf chn ldr) st = Inr st'"
  unfolding leftSide_def
proof (rule forEachE_always)
  fix i s
  assume "i \<in> set [0..indexOf chn ldr - 1]"
  with indexOf_upper [of chn ldr] have i: "0 \<le> i" "i + 1 < int (length chn)" by auto
  then have "\<exists>k\<in>set chn. elemAt chn i = Some k" "\<exists>k\<in>set chn. elemAt chn (i + 1) = Some k"
    by (simp_all add: elemAt_Some)
  with assms show "\<exists>s'. relayHop config nodes (elemAt chn i) (elemAt chn (i + 1)) s = Inr s'"
    by (intro relayHop_total) blast+
qed

lemma rightSide_total:
  assumes "set chn \<subseteq> node_id ` set nodes" "chn = [] \<or> (\<exists>k\<in>set chn. ldr = Some k)"
  shows "\<exists>st'. rightSide config nodes chn (indexOf chn ldr) st = Inr st'"
  unfolding rightSide_def
proof (rule forEachE_always)
  fix i s
  assume "i \<in> set (rev [indexOf chn ldr + 1..int (length chn) - 1])"
  then have i: "indexOf chn ldr < i" "i < int (length chn)" by auto
  with indexOf_bounds [of chn ldr] have "chn \<noteq> []" by auto
  with assms(2) have "0 \<le> indexOf chn ldr" using indexOf_found by blast
  with i have "\<exists>k\<in>set chn. elemAt chn i = Some k" "\<exists>k\<in>set chn. elemAt chn (i - 1) = Some k"
    by (simp_all add: elemAt_Some)
  with assms(1) show "\<exists>s'. relayHop config nodes (elemAt chn i) (elemAt chn (i - 1)) s = Inr s'"
    by (intro relayHop_total) blast+
qed

lemma fold_pick_mem:
  "fold (\<lambda>x m. if gr x m then x else m) xs m \<in> insert m (set xs)"
  by (induction xs arbitrary: m) auto

lemma selectLeader_mem:
  assumes "chn \<noteq> []" "1 \<le> rno"
  shows "\<exists>k\<in>set chn. selectLeader config e chn rno = Some k"
proof (cases "leaderSelectionMethod config = roundRobin")
  case True
  from assms(1) have pos: "0 < int (length chn)" by simp
  then have "0 \<le> (rno - 1) mod int (length chn)" "(rno - 1) mod int (length chn) < int (length chn)"
    by (rule pos_mod_sign, rule pos_mod_bound)
  then have "nat ((rno - 1) mod int (length chn)) < length chn" by linarith
  with selectLeader_roundRobin [OF True assms] show ?thesis by simp
next
  case False
  from assms(1) obtain c0 rest where chn: "chn = c0 # rest" by (cases chn) auto
  have "fold (\<lambda>nodeId maxId. if energyGreater e nodeId maxId then nodeId else maxId) chn c0
          \<in> insert c0 (set chn)"
    by (rule fold_pick_mem)
  with False chn show ?thesis by (simp add: selectLeader_def)
qed



lemma constructGreedyChain_set: "set (constructGreedyChain ns) = node_id ` set ns"
  using constructGreedyChain_mset [of ns] by (metis mset_eq_setD set_map)













subsection \<open>The drained head, evaluated\<close>

lemma exDrained_eval:
  "memberPhase exLeachConfigHalf exNodes3 [''s1''] exMembers (initEnergy exNodes3 1, [], 0) = Inr exDrained"
  "basePhase exLeachConfigHalf exNodes3 [''s1''] exMembers exDrained
     = Inr ([(''base'', 1), (''s1'', - 1), (''s2'', 0)], [(''s2'', 1), (''s1'', 2)], 2)"
  "simulateLEACH exDraws exNodes3 exLeachConfigHalf = Inr exDrainedResult"
  by (simp_all add: ledger_eval leach_eval exNodes3_def exBase_def exSensor_def exSensor2_def
        exDraws_def exLeachConfigHalf_def exMembers_def exDrained_def exDrainedResult_def frac_def)

lemma exBaseOnly_run: "simulateLEACH (\<lambda>_. 0) [exBase] (exLeachConfig 1) = Inr exBaseOnlyResult"
  by (simp add: ledger_eval leach_eval exBase_def exBaseOnlyResult_def)


subsection \<open>Runs that return\<close>

text \<open>
  \<open>simulateLEACH\<close> returns a result whenever the node list holds a base station, and
  \<open>simulatePEGASIS\<close> whenever it holds a node that is not one. With no sensor at all the
  PEGASIS leader is \<^verbatim>\<open>undefined\<close>, and \<^verbatim>\<open>nodeEnergy[undefined]\<close> reads the key
  \<^verbatim>\<open>"undefined"\<close>: the run returns unless a base station carries that very id.
\<close>

lemma topologyOK_add_head:
  assumes "topologyOK ids heads members" "k \<in> ids"
  shows "topologyOK ids (heads @ [k]) (AList.update k [] members)"
  using assms by (auto simp: topologyOK_def AList.dom_update AList.update_conv')

lemma topologyOK_add_member:
  assumes "topologyOK ids heads members" "m \<in> ids" "map_of members h = Some ms"
  shows "topologyOK ids heads (AList.update h (ms @ [m]) members)"
  using assms by (auto simp: topologyOK_def AList.dom_update AList.update_conv' split: if_splits)

lemma electStep_OK:
  assumes "node_id node \<in> ids" "electStep rnd config e node t = (heads', members', i')"
    "topologyOK ids (fst t) (fst (snd t))"
  shows "topologyOK ids heads' members'"
proof -
  obtain heads members i where t: "t = (heads, members, i)" by (cases t)
  with assms show ?thesis
    by (auto simp: electStep_def Let_def topologyOK_add_head split: if_splits)
qed

lemma fold_electStep_OK:
  assumes "node_id ` set ns \<subseteq> ids" "topologyOK ids (fst t) (fst (snd t))"
  shows "topologyOK ids (fst (fold (electStep rnd config e) ns t))
           (fst (snd (fold (electStep rnd config e) ns t)))"
  using assms
proof (induction ns arbitrary: t)
  case Nil
  then show ?case by simp
next
  case (Cons n ns)
  obtain h m i where s: "electStep rnd config e n t = (h, m, i)"
    by (cases "electStep rnd config e n t")
  from Cons.prems have "node_id n \<in> ids" by simp
  from electStep_OK [OF this s Cons.prems(2)] have "topologyOK ids (fst (h, m, i)) (fst (snd (h, m, i)))"
    by simp
  with Cons.IH [of "(h, m, i)"] Cons.prems(1) s show ?case by simp
qed

lemma randomIndex_bound:
  assumes "0 < n"
  shows "nat \<lfloor>frac r * real n\<rfloor> < n"
proof -
  have "frac r < 1" "0 \<le> frac r" by (simp_all add: frac_lt_1)
  with assms have "frac r * real n < real n" "0 \<le> frac r * real n" by simp_all
  then have "\<lfloor>frac r * real n\<rfloor> < int n" "0 \<le> \<lfloor>frac r * real n\<rfloor>" by (simp_all add: floor_less_iff)
  then show ?thesis by linarith
qed

lemma fallbackHead_OK:
  assumes "fallbackHead rnd e nodes t = (heads', members', i')"
    "topologyOK (node_id ` set nodes) (fst t) (fst (snd t))"
  shows "topologyOK (node_id ` set nodes) heads' members'"
proof -
  obtain heads members i where t: "t = (heads, members, i)" by (cases t)
  let ?avail = "map node_id (filter (\<lambda>node. gt0 e (node_id node) \<and> node_type node \<noteq> Base) nodes)"
  show ?thesis
  proof (cases "heads = [] \<and> ?avail \<noteq> []")
    case False
    with assms t show ?thesis by (auto simp: fallbackHead_def Let_def split: if_splits)
  next
    case True
    let ?k = "?avail ! nat \<lfloor>frac (rnd i) * real (length ?avail)\<rfloor>"
    from True have "nat \<lfloor>frac (rnd i) * real (length ?avail)\<rfloor> < length ?avail"
      by (intro randomIndex_bound) simp
    then have "?k \<in> set ?avail" by (rule nth_mem)
    then have k: "?k \<in> node_id ` set nodes" by auto
    from assms(1) t True have "heads' = heads @ [?k]" "members' = AList.update ?k [] members"
      by (simp_all add: fallbackHead_def Let_def)
    with assms(2) t k show ?thesis by (simp add: topologyOK_add_head)
  qed
qed

lemma nearest_total:
  assumes "set hs \<subseteq> node_id ` set nodes"
  shows "\<exists>md nh. forEachE (nearestStep nodes node) hs acc = Inr (md, nh) \<and> nh \<in> insert (snd acc) (set hs)"
  using assms
proof (induction hs arbitrary: acc)
  case Nil
  then show ?case by (cases acc) simp
next
  case (Cons h hs)
  obtain md nh where acc: "acc = (md, nh)" by (cases acc)
  from Cons.prems obtain hd where f: "findNode nodes (Some h) = Some hd"
    using findNode_Some [of h nodes] by auto
  define better where "better \<longleftrightarrow>
      (case md of None \<Rightarrow> True | Some m \<Rightarrow> calculateDistance (position node) (position hd) < m)"
  define acc' where "acc' =
      (if better then (Some (calculateDistance (position node) (position hd)), h) else acc)"
  from f have s: "nearestStep nodes node h acc = Inr acc'" "snd acc' \<in> {h, nh}"
    by (simp_all add: nearestStep_def acc Let_def acc'_def better_def)
  from Cons.prems have "set hs \<subseteq> node_id ` set nodes" by simp
  from Cons.IH [OF this, of acc'] s acc show ?case by auto
qed

lemma assignStep_total:
  assumes "topologyOK (node_id ` set nodes) heads members" "node \<in> set nodes"
  shows "\<exists>members'. assignStep nodes e heads node members = Inr members' \<and>
           topologyOK (node_id ` set nodes) heads members'"
proof (cases "le0 e (node_id node) \<or> node_type node = Base \<or> node_id node \<in> set heads")
  case True
  with assms(1) show ?thesis by (auto simp: assignStep_def)
next
  case False
  from assms(1) have hs: "set heads \<subseteq> node_id ` set nodes" by (simp add: topologyOK_def)
  from nearest_total [OF hs, of node "(None, [])"] obtain md nh where
    n: "forEachE (nearestStep nodes node) heads (None, []) = Inr (md, nh)" "nh \<in> insert [] (set heads)"
    by auto
  show ?thesis
  proof (cases "nh = []")
    case True
    with False n assms(1) show ?thesis by (simp add: assignStep_def)
  next
    case nonempty: False
    with n have "nh \<in> set heads" by simp
    with assms(1) have "nh \<in> fst ` set members" by (auto simp: topologyOK_def)
    then obtain ms where ms: "map_of members nh = Some ms"
      by (metis map_of_eq_None_iff not_Some_eq)
    from assms have "topologyOK (node_id ` set nodes) heads (AList.update nh (ms @ [node_id node]) members)"
      using ms by (intro topologyOK_add_member) simp_all
    with False n nonempty ms show ?thesis by (simp add: assignStep_def)
  qed
qed

lemma leachTopology_total:
  "\<exists>heads members i'. leachTopology rnd config nodes e i = Inr (heads, members, i') \<and>
      topologyOK (node_id ` set nodes) heads members"
proof -
  let ?ids = "node_id ` set nodes"
  obtain h0 m0 i0 where el: "electHeads rnd config e nodes i = (h0, m0, i0)"
    by (cases "electHeads rnd config e nodes i")
  have "topologyOK ?ids (fst ([], [], i)) (fst (snd ([], [] :: (string \<times> string list) list, i)))"
    by (simp add: topologyOK_def)
  from fold_electStep_OK [OF subset_refl this, of rnd config e] el
  have ok0: "topologyOK ?ids h0 m0" by (simp add: electHeads_def)
  obtain heads m1 i1 where fb: "fallbackHead rnd e nodes (h0, m0, i0) = (heads, m1, i1)"
    by (cases "fallbackHead rnd e nodes (h0, m0, i0)")
  from fallbackHead_OK [OF fb] ok0 have ok1: "topologyOK ?ids heads m1" by simp
  have "\<exists>members. forEachE (assignStep nodes e heads) nodes m1 = Inr members \<and> topologyOK ?ids heads members"
    by (rule forEachE_total [where P = "topologyOK ?ids heads", OF ok1]) (rule assignStep_total)
  with el fb show ?thesis by (auto simp: leachTopology_def)
qed

lemma memberSend_total:
  assumes "memberId \<in> node_id ` set nodes" "headId \<in> node_id ` set nodes"
  shows "\<exists>st'. memberSend config nodes headId memberId st = Inr st'"
proof -
  from assms obtain member head where
    "findNode nodes (Some memberId) = Some member" "findNode nodes (Some headId) = Some head"
    using findNode_Some by blast
  then show ?thesis by (cases st) (simp add: memberSend_def Let_def)
qed

lemma leachPhases_total:
  assumes ok: "topologyOK (node_id ` set nodes) heads members"
    and base: "List.find (\<lambda>n. node_type n = Base) nodes = Some bs"
  shows "\<exists>st'. leachPhases config nodes heads members e = Inr st'"
proof -
  have entry: "\<exists>ms. map_of members h = Some ms \<and> set ms \<subseteq> node_id ` set nodes"
    if "h \<in> set heads" for h
  proof -
    from that ok have "h \<in> fst ` set members" by (auto simp: topologyOK_def)
    then obtain ms where "map_of members h = Some ms" by (metis map_of_eq_None_iff not_Some_eq)
    with ok show ?thesis by (auto simp: topologyOK_def)
  qed
  from ok have hs: "set heads \<subseteq> node_id ` set nodes" by (simp add: topologyOK_def)
  have "\<exists>st1. memberPhase config nodes heads members (e, [], 0) = Inr st1"
    unfolding memberPhase_def
  proof (rule forEachE_always)
    fix h s assume h: "h \<in> set heads"
    from entry [OF h] obtain ms where ms: "map_of members h = Some ms" "set ms \<subseteq> node_id ` set nodes"
      by blast
    have "\<exists>s'. forEachE (memberSend config nodes h) ms s = Inr s'"
    proof (rule forEachE_always)
      fix m t assume "m \<in> set ms"
      with ms(2) h hs show "\<exists>t'. memberSend config nodes h m t = Inr t'"
        by (intro memberSend_total) auto
    qed
    with ms(1) show "\<exists>s'. clusterSend config nodes members h s = Inr s'"
      by (simp add: clusterSend_def)
  qed
  then obtain st1 where m: "memberPhase config nodes heads members (e, [], 0) = Inr st1" by blast
  have "\<exists>st'. basePhase config nodes heads members st1 = Inr st'"
    unfolding basePhase_def
  proof (rule forEachE_always)
    fix h s assume h: "h \<in> set heads"
    from entry [OF h] obtain ms where ms: "map_of members h = Some ms" by blast
    from h hs obtain head where "findNode nodes (Some h) = Some head"
      using findNode_Some [of h nodes] by auto
    with ms base
    show "\<exists>s'. headSend config nodes (List.find (\<lambda>n. node_type n = Base) nodes) members h s = Inr s'"
      by (cases s) (simp add: headSend_def Let_def)
  qed
  with m show ?thesis by (simp add: leachPhases_def)
qed

lemma leachStep_total:
  assumes "List.find (\<lambda>n. node_type n = Base) nodes = Some bs"
  shows "\<exists>s'. leachStep rnd config nodes rno s = Inr s'"
proof (cases "s_networkDied s")
  case True
  then show ?thesis by (simp add: leachStep_def)
next
  case False
  from leachTopology_total [of rnd config nodes "s_nodeEnergy s" "s_randomCalls s"]
  obtain heads members i where
    t: "leachTopology rnd config nodes (s_nodeEnergy s) (s_randomCalls s) = Inr (heads, members, i)"
    and ok: "topologyOK (node_id ` set nodes) heads members"
    by blast
  from leachPhases_total [OF ok assms] obtain st where
    "leachPhases config nodes heads members (s_nodeEnergy s) = Inr st" by blast
  with False t show ?thesis by (cases st) (simp add: leachStep_def leachRound_def)
qed

lemma simulateLEACH_total:
  assumes "List.find (\<lambda>n. node_type n = Base) nodes = Some bs"
  shows "\<exists>res. simulateLEACH rnd nodes config = Inr res"
proof -
  have "\<exists>s'. forEachE (leachStep rnd config nodes) [1..rounds config] (initLeachState nodes config) = Inr s'"
    by (rule forEachE_always) (rule leachStep_total [OF assms])
  then show ?thesis by (auto simp: simulateLEACH_def)
qed

lemma pegasisPhases_total:
  assumes "set chn \<subseteq> node_id ` set nodes" "\<exists>k\<in>set chn. ldr = Some k"
  shows "\<exists>st'. pegasisPhases config nodes bs chn ldr e = Inr st'"
proof -
  from assms(2) have ldr: "chn = [] \<or> (\<exists>k\<in>set chn. ldr = Some k)" by blast
  obtain st1 where l: "leftSide config nodes chn (indexOf chn ldr) (e, [], 0) = Inr st1"
    using leftSide_total [OF assms(1)] by blast
  obtain st2 where r: "rightSide config nodes chn (indexOf chn ldr) st1 = Inr st2"
    using rightSide_total [OF assms(1) ldr] by blast
  from assms obtain leaderNode where "findNode nodes ldr = Some leaderNode"
    using findNode_Some by blast
  then have "\<exists>st'. leaderToBase config nodes bs ldr st2 = Inr st'"
    by (cases st2; cases bs) (simp_all add: leaderToBase_def Let_def)
  with l r show ?thesis by (simp add: pegasisPhases_def)
qed

lemma pegasisStep_total:
  assumes "set chn \<subseteq> node_id ` set nodes" "1 \<le> rno" "chn \<noteq> []"
  shows "\<exists>s'. pegasisStep config nodes bs chn rno s = Inr s'"
proof (cases "s_networkDied s")
  case True
  then show ?thesis by (simp add: pegasisStep_def)
next
  case False
  let ?ldr = "selectLeader config (s_nodeEnergy s) chn rno"
  from selectLeader_mem [OF assms(3,2)] have "\<exists>k\<in>set chn. ?ldr = Some k" .
  from pegasisPhases_total [OF assms(1) this] obtain st where
    "pegasisPhases config nodes bs chn ?ldr (s_nodeEnergy s) = Inr st" by blast
  with False show ?thesis by (cases st) (simp add: pegasisStep_def pegasisRound_def)
qed

lemma simulatePEGASIS_total:
  assumes "\<exists>node\<in>set nodes. node_type node \<noteq> Base"
  shows "\<exists>res. simulatePEGASIS nodes config = Inr res"
proof -
  let ?sensors = "filter (\<lambda>node. node_type node \<noteq> Base) nodes"
  let ?chn = "constructGreedyChain ?sensors"
  have sub: "set ?chn \<subseteq> node_id ` set nodes" by (auto simp: constructGreedyChain_set)
  from assms have "?sensors \<noteq> []" by (simp add: filter_empty_conv)
  then have "node_id ` set ?sensors \<noteq> {}" by (metis image_is_empty set_empty)
  then have "set ?chn \<noteq> {}" by (simp only: constructGreedyChain_set not_False_eq_True)
  then have ne: "?chn \<noteq> []" by auto
  have "\<exists>s'. forEachE (pegasisStep config nodes (List.find (\<lambda>node. node_type node = Base) nodes) ?chn)
                [1..rounds config] (initState nodes config :: PEGASISRound RunState) = Inr s'"
  proof (rule forEachE_always)
    fix x and s :: "PEGASISRound RunState"
    assume "x \<in> set [1..rounds config]"
    then have "1 \<le> x" by simp
    from pegasisStep_total [OF sub this ne]
    show "\<exists>s'. pegasisStep config nodes (List.find (\<lambda>node. node_type node = Base) nodes) ?chn x s = Inr s'" .
  qed
  then show ?thesis by (auto simp: simulatePEGASIS_def Let_def)
qed

lemma exOddBase_run: "simulatePEGASIS [exOddBase] (exPegasisConfig 1) = Inl TypeError"
  by (simp add: ledger_eval pegasis_eval exOddBase_def)

lemma exBaseOnly_pegasis: "\<exists>res. simulatePEGASIS [exBase] (exPegasisConfig 1) = Inr res"
  by (simp add: ledger_eval pegasis_eval exBase_def)

subsection \<open>Binary64 addition, evaluated\<close>

lemma floor_log2:
  assumes "2 powr of_int n \<le> x" "x < 2 powr of_int (n + 1)"
  shows "\<lfloor>log 2 x\<rfloor> = n"
proof -
  have pos: "0 < x" using assms(1) powr_gt_zero [of 2 "of_int n"] by linarith
  have "of_int n \<le> log 2 x" using assms(1) pos by (simp add: le_log_iff)
  moreover have "log 2 x < of_int (n + 1)" using assms(2) pos by (simp add: log_less_iff)
  ultimately show ?thesis by (simp add: floor_unique)
qed

text \<open>Rounding in the binade \<^verbatim>\<open>[2^n, 2^(n+1))\<close> of a normal double.\<close>

lemma roundDouble_binade:
  assumes "2 powr of_int n \<le> \<bar>x\<bar>" "\<bar>x\<bar> < 2 powr of_int (n + 1)" "- 1022 \<le> n"
  shows "roundDouble x = of_int (roundHalfEven (x / 2 powr (of_int n - 52))) * 2 powr (of_int n - 52)"
proof -
  have "x \<noteq> 0" using assms(1) powr_gt_zero [of 2 "of_int n"] by auto
  moreover have "ulp x = 2 powr (of_int n - 52)"
    using floor_log2 [OF assms(1,2)] assms(3) by (simp add: ulp_def)
  ultimately show ?thesis by (simp add: roundDouble_def)
qed

text \<open>
  The additions of the two-sensor run. \<^verbatim>\<open>1 + (2 + 2^(-51))\<close> is a double. Adding \<open>1\<close> to
  it gives \<^verbatim>\<open>4 + 2^(-51)\<close>, half-way between the doubles \<open>4\<close> and \<^verbatim>\<open>4 + 2^(-50)\<close>, which
  rounds to \<open>4\<close>; adding \<^verbatim>\<open>2 + 2^(-51)\<close> to \<open>4\<close> is half-way between \<open>6\<close> and
  \<^verbatim>\<open>6 + 2^(-50)\<close> and rounds to \<open>6\<close>. The sum of two round sums \<^verbatim>\<open>3 + 2^(-51)\<close> is the
  double \<^verbatim>\<open>6 + 2^(-50)\<close>.
\<close>

lemma exTiny_rounding:
  "jsAdd 0 1 = 1"
  "jsAdd 1 (2 + 1 / 2 ^ 51) = 3 + 1 / 2 ^ 51"
  "jsAdd (3 + 1 / 2 ^ 51) 1 = 4"
  "jsAdd 4 (2 + 1 / 2 ^ 51) = 6"
  "jsAdd 0 (3 + 1 / 2 ^ 51) = 3 + 1 / 2 ^ 51"
  "jsAdd (3 + 1 / 2 ^ 51) (3 + 1 / 2 ^ 51) = 6 + 1 / 2 ^ 50"
  using roundDouble_binade [of 0 1] roundDouble_binade [of 1 "3 + 1 / 2 ^ 51"]
    roundDouble_binade [of 2 "4 + 1 / 2 ^ 51"] roundDouble_binade [of 2 "6 + 1 / 2 ^ 51"]
    roundDouble_binade [of 2 "6 + 1 / 2 ^ 50"]
  by (simp_all add: jsAdd_def roundHalfEven_def Let_def powr_neg_numeral)

text \<open>The same sums, with each fraction written as one quotient of numerals.\<close>

lemma exTiny_sums:
  "jsAdd 0 1 = 1"
  "jsAdd 1 (4503599627370497 / 2251799813685248) = 6755399441055745 / 2251799813685248"
  "jsAdd (6755399441055745 / 2251799813685248) 1 = 4"
  "jsAdd 4 (4503599627370497 / 2251799813685248) = 6"
  "jsAdd 0 (6755399441055745 / 2251799813685248) = 6755399441055745 / 2251799813685248"
  "jsAdd (6755399441055745 / 2251799813685248) (6755399441055745 / 2251799813685248)
     = 6755399441055745 / 1125899906842624"
  using exTiny_rounding by simp_all

lemma exTiny_run: "simulatePEGASIS [exSensor, exSensor2] exTinyConfig = Inr exTinyResult"
  by (simp add: ledger_eval pegasis_eval exSensor_def exSensor2_def exTinyConfig_def
        exTinyResult_def upto.simps exTiny_sums)

lemma exTiny_ids: "plainIds [exSensor, exSensor2]" "insertionOrdered [exSensor, exSensor2]"
  by (simp_all add: plainIds_def insertionOrdered_def objectPrototypeMembers_def exSensor_def exSensor2_def)

lemma exSmall_ids: "plainIds [exBase, exSensor]" "insertionOrdered [exBase, exSensor]"
  by (simp_all add: plainIds_def insertionOrdered_def objectPrototypeMembers_def exBase_def exSensor_def)

subsection \<open>The sensor field, evaluated\<close>

lemma exField_chain:
  "constructGreedyChain (filter (\<lambda>node. node_type node \<noteq> Base) exField) = [''a'', ''c'', ''b'']"
  by (simp add: exField_def exFarBase_def exA_def exB_def exC_def nearestIndexOf_def
        calculateDistance_def Let_def)

lemma exField_run: "simulatePEGASIS exField exFieldConfig = Inr exFieldResult"
  by (simp add: ledger_eval pegasis_eval exField_def exFarBase_def exA_def exB_def exC_def
        exFieldConfig_def exFieldResult_def runningTotal_def upto.simps)

lemma exTwin_run: "simulatePEGASIS [exBase, exSensor, exSensor] (exPegasisConfig 1) = Inr exTwinResult"
  by (simp add: ledger_eval pegasis_eval exBase_def exSensor_def exTwinResult_def)

subsection \<open>The cost phases do not read the ledger\<close>

lemma forEachE_indep:
  fixes f :: "'a \<Rightarrow> acct \<Rightarrow> error + acct"
  assumes step: "\<And>x s1 s2 s1'. x \<in> set xs \<Longrightarrow> snd s1 = snd s2 \<Longrightarrow> f x s1 = Inr s1' \<Longrightarrow>
                   \<exists>s2'. f x s2 = Inr s2' \<and> snd s2' = snd s1'"
    and run: "forEachE f xs s1 = Inr s1'" and same: "snd s1 = snd s2"
  shows "\<exists>s2'. forEachE f xs s2 = Inr s2' \<and> snd s2' = snd s1'"
  using assms
proof (induction xs arbitrary: s1 s2)
  case Nil
  then show ?case by simp
next
  case (Cons x xs)
  from Cons.prems(2) obtain t1 where t1: "f x s1 = Inr t1" and rest: "forEachE f xs t1 = Inr s1'"
    by (auto split: sum.splits)
  have "x \<in> set (x # xs)" by simp
  from Cons.prems(1) [OF this Cons.prems(3) t1] obtain t2 where t2: "f x s2 = Inr t2" "snd t2 = snd t1"
    by blast
  have "\<exists>s2'. forEachE f xs t2 = Inr s2' \<and> snd s2' = snd s1'"
  proof (rule Cons.IH [OF _ rest])
    show "snd t1 = snd t2" using t2(2) by simp
  next
    fix y and r1 r2 r1' :: acct
    assume "y \<in> set xs" "snd r1 = snd r2" "f y r1 = Inr r1'"
    then show "\<exists>s2'. f y r2 = Inr s2' \<and> snd s2' = snd r1'"
      using Cons.prems(1) [of y r1 r2 r1'] by simp
  qed
  with t2(1) show ?case by simp
qed

lemma memberSend_indep:
  assumes "snd s1 = snd s2" "memberSend config nodes headId memberId s1 = Inr s1'"
  shows "\<exists>s2'. memberSend config nodes headId memberId s2 = Inr s2' \<and> snd s2' = snd s1'"
proof -
  obtain e1 u d where s1: "s1 = (e1, u, d)" by (cases s1)
  with assms(1) obtain e2 where s2: "s2 = (e2, u, d)" by (cases s2) auto
  from assms(2) s1 s2 show ?thesis
    by (auto simp: memberSend_def Let_def split: option.splits)
qed

lemma headSend_indep:
  assumes "snd s1 = snd s2" "headSend config nodes bs members headId s1 = Inr s1'"
  shows "\<exists>s2'. headSend config nodes bs members headId s2 = Inr s2' \<and> snd s2' = snd s1'"
proof -
  obtain e1 u d where s1: "s1 = (e1, u, d)" by (cases s1)
  with assms(1) obtain e2 where s2: "s2 = (e2, u, d)" by (cases s2) auto
  from assms(2) s1 s2 show ?thesis
    by (auto simp: headSend_def Let_def split: option.splits)
qed

lemma clusterSend_indep:
  assumes "snd s1 = snd s2" "clusterSend config nodes members headId s1 = Inr s1'"
  shows "\<exists>s2'. clusterSend config nodes members headId s2 = Inr s2' \<and> snd s2' = snd s1'"
proof -
  from assms(2) obtain memberIds where m: "map_of members headId = Some memberIds"
    and run: "forEachE (memberSend config nodes headId) memberIds s1 = Inr s1'"
    by (auto simp: clusterSend_def split: option.splits)
  have "\<exists>s2'. forEachE (memberSend config nodes headId) memberIds s2 = Inr s2' \<and> snd s2' = snd s1'"
    by (rule forEachE_indep [OF _ run assms(1)]) (rule memberSend_indep)
  with m show ?thesis by (simp add: clusterSend_def)
qed

lemma leachPhases_indep:
  assumes "leachPhases config nodes heads members e1 = Inr (e1', u, d)"
  shows "\<exists>e2'. leachPhases config nodes heads members e2 = Inr (e2', u, d)"
proof -
  from assms obtain st1 where
    m: "memberPhase config nodes heads members (e1, [], 0) = Inr st1"
    and b: "basePhase config nodes heads members st1 = Inr (e1', u, d)"
    by (auto simp: leachPhases_def split: sum.splits)
  have "\<exists>st2. forEachE (clusterSend config nodes members) heads (e2, [], 0) = Inr st2 \<and> snd st2 = snd st1"
    by (rule forEachE_indep [OF _ m [unfolded memberPhase_def]]) (rule clusterSend_indep, simp_all)
  then obtain st2 where m2': "forEachE (clusterSend config nodes members) heads (e2, [], 0) = Inr st2"
    and s': "snd st2 = snd st1"
    by blast
  from m2' have m2: "memberPhase config nodes heads members (e2, [], 0) = Inr st2"
    by (simp add: memberPhase_def)
  from s' have s: "snd st1 = snd st2" by simp
  have "\<exists>st3. forEachE (headSend config nodes (List.find (\<lambda>n. node_type n = Base) nodes) members) heads st2
                 = Inr st3 \<and> snd st3 = snd (e1', u, d)"
    by (rule forEachE_indep [OF _ b [unfolded basePhase_def] s]) (rule headSend_indep)
  then obtain st3 where b2': "forEachE (headSend config nodes (List.find (\<lambda>n. node_type n = Base) nodes) members)
                                heads st2 = Inr st3"
    and s3': "snd st3 = snd (e1', u, d)"
    by blast
  from b2' have b2: "basePhase config nodes heads members st2 = Inr st3" by (simp add: basePhase_def)
  from s3' have s3: "snd st3 = (u, d)" by simp
  from s3 obtain e2' where "st3 = (e2', u, d)" by (cases st3) auto
  with m2 b2 show ?thesis by (auto simp: leachPhases_def)
qed

lemma exPhases_eval:
  "leachPhases exLeachConfigHalf exNodes3 [''s1''] exMembers (initEnergy exNodes3 1)
     = Inr ([(''base'', 1), (''s1'', - 1), (''s2'', 0)], [(''s2'', 1), (''s1'', 2)], 2)"
  by (simp add: leachPhases_def exDrained_eval)

subsection \<open>The heads of a round\<close>

lemma electStep_headOK:
  assumes "node \<in> set nodes" "\<forall>h\<in>set (fst t). headOK nodes e h"
  shows "\<forall>h\<in>set (fst (electStep rnd config e node t)). headOK nodes e h"
proof -
  obtain heads members i where t: "t = (heads, members, i)" by (cases t)
  with assms show ?thesis by (auto simp: electStep_def Let_def headOK_def)
qed

lemma fold_electStep_headOK:
  assumes "set ns \<subseteq> set nodes" "\<forall>h\<in>set (fst t). headOK nodes e h"
  shows "\<forall>h\<in>set (fst (fold (electStep rnd config e) ns t)). headOK nodes e h"
  using assms
proof (induction ns arbitrary: t)
  case Nil
  then show ?case by simp
next
  case (Cons n ns)
  from Cons.prems have "n \<in> set nodes" "set ns \<subseteq> set nodes" by simp_all
  from Cons.IH [OF this(2) electStep_headOK [OF this(1) Cons.prems(2)]] show ?case by simp
qed

lemma fallbackHead_picks:
  assumes "fst t = []" "\<exists>node\<in>set nodes. gt0 e (node_id node) \<and> node_type node \<noteq> Base"
  shows "\<exists>node\<in>set nodes. gt0 e (node_id node) \<and> node_type node \<noteq> Base \<and>
           fst (fallbackHead rnd e nodes t) = [node_id node]"
proof -
  obtain heads members i where t: "t = (heads, members, i)" by (cases t)
  let ?live = "filter (\<lambda>node. gt0 e (node_id node) \<and> node_type node \<noteq> Base) nodes"
  let ?k = "nat \<lfloor>frac (rnd i) * real (length ?live)\<rfloor>"
  from assms(2) have ne: "0 < length ?live" by (simp add: filter_empty_conv)
  then have k: "?k < length ?live" by (rule randomIndex_bound)
  then have "?live ! ?k \<in> set ?live" by (rule nth_mem)
  then have ok: "?live ! ?k \<in> set nodes" "gt0 e (node_id (?live ! ?k))" "node_type (?live ! ?k) \<noteq> Base"
    by simp_all
  from assms(1) t ne k have "fst (fallbackHead rnd e nodes t) = [node_id (?live ! ?k)]"
    by (simp add: fallbackHead_def Let_def)
  with ok show ?thesis by blast
qed

lemma fallbackHead_keeps: "fst t \<noteq> [] \<Longrightarrow> fallbackHead rnd e nodes t = t"
  by (cases t) (simp add: fallbackHead_def)

lemma fallbackHead_headOK:
  assumes "\<forall>h\<in>set (fst t). headOK nodes e h"
  shows "\<forall>h\<in>set (fst (fallbackHead rnd e nodes t)). headOK nodes e h"
proof (cases "fst t = [] \<and> (\<exists>node\<in>set nodes. gt0 e (node_id node) \<and> node_type node \<noteq> Base)")
  case True
  with fallbackHead_picks [of t nodes e rnd] show ?thesis
    by (auto simp: headOK_def gt0_not_le0)
next
  case False
  then have "fallbackHead rnd e nodes t = t"
    by (cases t) (auto simp: fallbackHead_def Let_def filter_empty_conv)
  with assms show ?thesis by simp
qed

lemma leachTopology_headOK:
  assumes "leachTopology rnd config nodes e i = Inr (heads, members, i')"
  shows "heads = fst (fallbackHead rnd e nodes (electHeads rnd config e nodes i))"
    and "\<forall>h\<in>set heads. headOK nodes e h"
proof -
  from leachTopology_heads [OF assms]
  show h: "heads = fst (fallbackHead rnd e nodes (electHeads rnd config e nodes i))" by auto
  have "\<forall>h\<in>set (fst (electHeads rnd config e nodes i)). headOK nodes e h"
    unfolding electHeads_def by (rule fold_electStep_headOK) simp_all
  then show "\<forall>h\<in>set heads. headOK nodes e h" unfolding h by (rule fallbackHead_headOK)
qed

lemma leachStep_logs_heads:
  assumes "leachStep rnd config nodes rno s = Inr s'" "\<not> s_networkDied s"
  shows "\<exists>r. s_rounds s' = s_rounds s @ [r] \<and>
           clusterHeads r = fst (fallbackHead rnd (s_nodeEnergy s) nodes
                                  (electHeads rnd config (s_nodeEnergy s) nodes (s_randomCalls s))) \<and>
           (\<forall>h\<in>set (clusterHeads r). headOK nodes (s_nodeEnergy s) h)"
  using assms(1)
proof (cases rule: leachStep_cases)
  case skipped
  with assms(2) show ?thesis by simp
next
  case (ran heads members i e u d)
  from leachTopology_headOK [OF ran(2)] ran(4) show ?thesis by simp
qed

lemma leachStep_heads_nonbase:
  assumes "leachStep rnd config nodes rno s = Inr s'"
    and "\<forall>r\<in>set (s_rounds s). \<forall>h\<in>set (clusterHeads r). \<exists>node\<in>set nodes. node_id node = h \<and> node_type node \<noteq> Base"
  shows "\<forall>r\<in>set (s_rounds s'). \<forall>h\<in>set (clusterHeads r). \<exists>node\<in>set nodes. node_id node = h \<and> node_type node \<noteq> Base"
proof (cases "s_networkDied s")
  case True
  with assms show ?thesis by (simp add: leachStep_def)
next
  case False
  from leachStep_logs_heads [OF assms(1) False] obtain r where
    r: "s_rounds s' = s_rounds s @ [r]" "\<forall>h\<in>set (clusterHeads r). headOK nodes (s_nodeEnergy s) h"
    by blast
  from r(2) have "\<forall>h\<in>set (clusterHeads r). \<exists>node\<in>set nodes. node_id node = h \<and> node_type node \<noteq> Base"
    unfolding headOK_def by blast
  with assms(2) r(1) show ?thesis by auto
qed

lemma simulateLEACH_heads_nonbase:
  assumes "simulateLEACH rnd nodes config = Inr res"
  shows "\<forall>r\<in>set (rounds_log res). \<forall>h\<in>set (clusterHeads r). \<exists>node\<in>set nodes. node_id node = h \<and> node_type node \<noteq> Base"
proof -
  from assms obtain s where
    run: "forEachE (leachStep rnd config nodes) [1..rounds config] (initLeachState nodes config) = Inr s"
    and res: "res = finish nodes s"
    by (rule simulateLEACH_run)
  let ?P = "\<lambda>s :: LeachState. \<forall>r\<in>set (s_rounds s). \<forall>h\<in>set (clusterHeads r).
              \<exists>node\<in>set nodes. node_id node = h \<and> node_type node \<noteq> Base"
  have "?P s"
  proof (rule forEachE_invariant [OF run, where P = ?P])
    show "?P (initLeachState nodes config)" by (simp add: initLeachState_def)
  next
    fix x s s'
    assume "?P s" "leachStep rnd config nodes x s = Inr s'"
    then show "?P s'" by (rule leachStep_heads_nonbase [rotated])
  qed
  with res show ?thesis by (simp add: finish_def)
qed

lemma simulateLEACH_heads_nonempty:
  assumes "simulateLEACH rnd nodes config = Inr res"
    and "\<exists>node\<in>set nodes. node_type node \<noteq> Base"
  shows "\<forall>r\<in>set (rounds_log res). 0 < nodesAlive r \<longrightarrow> clusterHeads r \<noteq> []"
proof -
  from assms(1) obtain s where
    run: "forEachE (leachStep rnd config nodes) [1..rounds config] (initLeachState nodes config) = Inr s"
    and res: "res = finish nodes s"
    by (rule simulateLEACH_run)
  have "headsInv nodes (initialEnergy config) s"
  proof (rule forEachE_invariant [OF run, where P = "headsInv nodes (initialEnergy config)"])
    show "headsInv nodes (initialEnergy config) (initLeachState nodes config)"
      by (simp add: headsInv_def initLeachState_def)
  next
    fix x s s'
    assume "headsInv nodes (initialEnergy config) s" "leachStep rnd config nodes x s = Inr s'"
    then show "headsInv nodes (initialEnergy config) s'"
      using leachStep_headsInv [OF _ assms(2)] by blast
  qed
  with res show ?thesis by (simp add: headsInv_def finish_def)
qed

lemma exFallback_run:
  "simulateLEACH (\<lambda>_. 3 / 5) exNodes3 exLeachConfigNever = Inr exFallbackResult"
  "fst (electHeads (\<lambda>_. 3 / 5) exLeachConfigNever (initEnergy exNodes3 1) exNodes3 0) = []"
  "fst (fallbackHead (\<lambda>_. 3 / 5) (initEnergy exNodes3 1) exNodes3
          (electHeads (\<lambda>_. 3 / 5) exLeachConfigNever (initEnergy exNodes3 1) exNodes3 0)) = [''s2'']"
  by (simp_all add: ledger_eval leach_eval exNodes3_def exBase_def exSensor_def exSensor2_def
        exLeachConfigNever_def exFallbackResult_def frac_def)

lemma exNodes3_ids: "plainIds exNodes3"
  by (simp add: plainIds_def objectPrototypeMembers_def exNodes3_def exBase_def exSensor_def exSensor2_def)

subsection \<open>A sensor without energy\<close>




subsection \<open>The leader of a logged round\<close>



















text \<open>The result of \<open>simulateLEACH\<close> depends on the numbers drawn.\<close>

lemma simulateLEACH_reads_draws:
  "simulateLEACH exDraws exNodes3 exLeachConfigHalf \<noteq> simulateLEACH (\<lambda>_. 0) exNodes3 exLeachConfigHalf"
  by (simp add: exDrained_eval)
     (simp add: ledger_eval leach_eval exNodes3_def exBase_def exSensor_def exSensor2_def
        exLeachConfigHalf_def exDrainedResult_def)

section \<open>The claims\<close>

text \<open>
  The theorems of this section that speak of a returned result assume
  \<open>simulate\<dots> = Inr res\<close>; \<open>simulateLEACH_total\<close> and \<open>simulatePEGASIS_total\<close> show when
  there is one.
\<close>

text \<open>
  C1 (as stated: the log always has exactly \<open>config.rounds\<close> entries, dead rounds
  appended with zero activity). Both loops start with \<^verbatim>\<open>if (networkDied) continue\<close>,
  so nothing is pushed after the round in which a node died: in the small network
  with three rounds requested, both logs have two entries.
\<close>

theorem rounds_log_truncated:
  "simulateLEACH (\<lambda>_. 0) [exBase, exSensor] (exLeachConfig 3) = Inr exLeachResult \<and>
   int (length (rounds_log exLeachResult)) \<noteq> rounds (exLeachConfig 3) \<and>
   simulatePEGASIS [exBase, exSensor] (exPegasisConfig 3) = Inr exPegasisResult \<and>
   int (length (rounds_log exPegasisResult)) \<noteq> rounds (exPegasisConfig 3)"
  by (simp add: exLeach_run3 exPegasis_run3)
     (simp add: exLeachResult_def exPegasisResult_def exLeachConfig_def exPegasisConfig_def)

text \<open>
  C1, amended: the log returned by \<open>simulateLEACH\<close> and by \<open>simulatePEGASIS\<close> holds one
  entry per executed round, numbered \<open>1, 2, \<dots>\<close> without gaps; it has at most
  \<open>config.rounds\<close> entries, exactly \<open>config.rounds\<close> (none if that is negative) when every
  logged round has all nodes alive, and a round with fewer nodes alive than the node
  list is long is the last entry: no round is appended after the network has died.
\<close>

theorem rounds_log_shape:
  "(simulateLEACH rnd nodes lconfig = Inr lres \<longrightarrow>
      logShape (length nodes) (rounds lconfig) (rounds_log lres)) \<and>
   (simulatePEGASIS nodes pconfig = Inr pres \<longrightarrow>
      logShape (length nodes) (rounds pconfig) (rounds_log pres))"
proof (intro conjI impI)
  assume "simulateLEACH rnd nodes lconfig = Inr lres"
  from simulateLEACH_runInv [OF this] show "logShape (length nodes) (rounds lconfig) (rounds_log lres)"
    by (auto simp: finish_def dest: runInv_logShape)
next
  assume "simulatePEGASIS nodes pconfig = Inr pres"
  from simulatePEGASIS_runInv [OF this] show "logShape (length nodes) (rounds pconfig) (rounds_log pres)"
    by (auto simp: finish_def dest: runInv_logShape)
qed

theorem rounds_log_shape_witness:
  "simulateLEACH (\<lambda>_. 0) [exBase, exSensor] (exLeachConfig 3) = Inr exLeachResult \<and>
   simulatePEGASIS [exBase, exSensor] (exPegasisConfig 3) = Inr exPegasisResult \<and>
   logShape (length [exBase, exSensor]) (rounds (exLeachConfig 3)) (rounds_log exLeachResult) \<and>
   logShape (length [exBase, exSensor]) (rounds (exPegasisConfig 3)) (rounds_log exPegasisResult)"
  using rounds_log_shape [of "\<lambda>_. 0" "[exBase, exSensor]" "exLeachConfig 3" exLeachResult
      "exPegasisConfig 3" exPegasisResult] exLeach_run3 exPegasis_run3
  by blast

text \<open>
  C2 (as stated: the lifetime is at most \<open>config.rounds\<close>, and equals it if and only if
  no node ever died). The lifetime is initialised to \<open>config.rounds\<close> and overwritten
  with the number of the round that first sees a dead node; when that is the final
  round, the lifetime equals \<open>config.rounds\<close> although a node died. In the small network
  with two rounds requested the sensor dies in round 2.
\<close>

theorem network_lifetime_final_round_death:
  "simulatePEGASIS [exBase, exSensor] (exPegasisConfig 2) = Inr exPegasisResult \<and>
   networkLifetime (metrics exPegasisResult) = rounds (exPegasisConfig 2) \<and>
   nodesAlive (rounds_log exPegasisResult ! 1) < length [exBase, exSensor] \<and>
   simulateLEACH (\<lambda>_. 0) [exBase, exSensor] (exLeachConfig 2) = Inr exLeachResult \<and>
   networkLifetime (metrics exLeachResult) = rounds (exLeachConfig 2) \<and>
   nodesAlive (rounds_log exLeachResult ! 1) < length [exBase, exSensor]"
  by (simp add: exLeach_run2 exPegasis_run2)
     (simp add: exLeachResult_def exPegasisResult_def exLeachConfig_def exPegasisConfig_def)

text \<open>
  C2, amended: the returned \<open>networkLifetime\<close> is at most \<open>config.rounds\<close>; it equals
  \<open>config.rounds\<close> when every logged round has all nodes alive, and when a logged round
  has fewer nodes alive than the node list is long it is the number of that round
  (which is \<open>config.rounds\<close> itself when the node dies in the final round).
\<close>

theorem network_lifetime_shape:
  "(simulateLEACH rnd nodes lconfig = Inr lres \<longrightarrow>
      lifetimeShape (length nodes) (rounds lconfig) (rounds_log lres) (networkLifetime (metrics lres))) \<and>
   (simulatePEGASIS nodes pconfig = Inr pres \<longrightarrow>
      lifetimeShape (length nodes) (rounds pconfig) (rounds_log pres) (networkLifetime (metrics pres)))"
proof (intro conjI impI)
  assume "simulateLEACH rnd nodes lconfig = Inr lres"
  from simulateLEACH_runInv [OF this]
  show "lifetimeShape (length nodes) (rounds lconfig) (rounds_log lres) (networkLifetime (metrics lres))"
    by (auto simp: finish_def dest: runInv_lifetimeShape)
next
  assume "simulatePEGASIS nodes pconfig = Inr pres"
  from simulatePEGASIS_runInv [OF this]
  show "lifetimeShape (length nodes) (rounds pconfig) (rounds_log pres) (networkLifetime (metrics pres))"
    by (auto simp: finish_def dest: runInv_lifetimeShape)
qed

theorem network_lifetime_shape_witness:
  "simulateLEACH (\<lambda>_. 0) [exBase, exSensor] (exLeachConfig 2) = Inr exLeachResult \<and>
   simulatePEGASIS [exBase, exSensor] (exPegasisConfig 2) = Inr exPegasisResult \<and>
   lifetimeShape (length [exBase, exSensor]) (rounds (exLeachConfig 2))
     (rounds_log exLeachResult) (networkLifetime (metrics exLeachResult)) \<and>
   lifetimeShape (length [exBase, exSensor]) (rounds (exPegasisConfig 2))
     (rounds_log exPegasisResult) (networkLifetime (metrics exPegasisResult))"
  using network_lifetime_shape [of "\<lambda>_. 0" "[exBase, exSensor]" "exLeachConfig 2" exLeachResult
      "exPegasisConfig 2" exPegasisResult] exLeach_run2 exPegasis_run2
  by blast

text \<open>
  C9 (as stated: the returned \<open>energyConsumption\<close> equals the sum over the rounds of the
  sum of each round's \<open>energyUsage\<close> values, exactly). The total is one running sum over
  all values, and the addition of doubles is not associative. In the two-sensor run the
  logged values are \<^verbatim>\<open>1, 2 + 2^(-51), 1, 2 + 2^(-51)\<close>. Their running sum, which is what
  is returned, is \<open>6\<close>; the sum of the two round sums is \<^verbatim>\<open>6 + 2^(-50)\<close>, and so is the
  sum over the reals.
\<close>

theorem energy_total_is_not_nested_sum:
  "plainIds [exSensor, exSensor2] \<and> insertionOrdered [exSensor, exSensor2] \<and>
   simulatePEGASIS [exSensor, exSensor2] exTinyConfig = Inr exTinyResult \<and>
   energyConsumption (metrics exTinyResult) = 6 \<and>
   nestedTotal (rounds_log exTinyResult) = 6 + 1 / 2 ^ 50 \<and>
   (\<Sum>r\<leftarrow>rounds_log exTinyResult. sum_list (map snd (energyUsage r))) = 6 + 1 / 2 ^ 50 \<and>
   energyConsumption (metrics exTinyResult) \<noteq> nestedTotal (rounds_log exTinyResult) \<and>
   energyConsumption (metrics exTinyResult)
     \<noteq> (\<Sum>r\<leftarrow>rounds_log exTinyResult. sum_list (map snd (energyUsage r)))"
  by (simp add: exTiny_run exTiny_ids)
     (simp add: exTinyResult_def nestedTotal_def runningTotal_def exTiny_sums)

text \<open>
  C9, amended: for a node list with plain, insertion-ordered ids, the returned
  \<open>energyConsumption\<close> is the running sum, started at \<open>0\<close> and added in binary64, of the
  \<open>energyUsage\<close> values of the returned log, round after round and within a round in the
  order of its keys: every logged value is added exactly once, none is counted twice
  and none is left out.
\<close>

theorem energy_running_total:
  "(plainIds nodes \<and> insertionOrdered nodes \<and> simulateLEACH rnd nodes lconfig = Inr lres \<longrightarrow>
      energyConsumption (metrics lres) = runningTotal (usageValues (rounds_log lres))) \<and>
   (plainIds nodes \<and> insertionOrdered nodes \<and> simulatePEGASIS nodes pconfig = Inr pres \<longrightarrow>
      energyConsumption (metrics pres) = runningTotal (usageValues (rounds_log pres)))"
proof (intro conjI impI)
  assume "plainIds nodes \<and> insertionOrdered nodes \<and> simulateLEACH rnd nodes lconfig = Inr lres"
  then have "simulateLEACH rnd nodes lconfig = Inr lres" by simp
  from simulateLEACH_runInv [OF this]
  show "energyConsumption (metrics lres) = runningTotal (usageValues (rounds_log lres))"
    by (auto simp: finish_def runInv_def)
next
  assume "plainIds nodes \<and> insertionOrdered nodes \<and> simulatePEGASIS nodes pconfig = Inr pres"
  then have "simulatePEGASIS nodes pconfig = Inr pres" by simp
  from simulatePEGASIS_runInv [OF this]
  show "energyConsumption (metrics pres) = runningTotal (usageValues (rounds_log pres))"
    by (auto simp: finish_def runInv_def)
qed

theorem energy_running_total_witness:
  "plainIds [exBase, exSensor] \<and> insertionOrdered [exBase, exSensor] \<and>
   simulateLEACH (\<lambda>_. 0) [exBase, exSensor] (exLeachConfig 3) = Inr exLeachResult \<and>
   energyConsumption (metrics exLeachResult) = runningTotal [1 / 2, 1 / 2] \<and>
   plainIds [exSensor, exSensor2] \<and> insertionOrdered [exSensor, exSensor2] \<and>
   simulatePEGASIS [exSensor, exSensor2] exTinyConfig = Inr exTinyResult \<and>
   energyConsumption (metrics exTinyResult) = runningTotal [1, 2 + 1 / 2 ^ 51, 1, 2 + 1 / 2 ^ 51]"
proof -
  have l: "usageValues (rounds_log exLeachResult) = [1 / 2, 1 / 2]"
    by (simp add: usageValues_def exLeachResult_def)
  have p: "usageValues (rounds_log exTinyResult) = [1, 2 + 1 / 2 ^ 51, 1, 2 + 1 / 2 ^ 51]"
    by (simp add: usageValues_def exTinyResult_def)
  from energy_running_total [of "[exBase, exSensor]" "\<lambda>_. 0" "exLeachConfig 3" exLeachResult
      exTinyConfig exTinyResult] exSmall_ids exLeach_run3
  have a: "energyConsumption (metrics exLeachResult) = runningTotal [1 / 2, 1 / 2]"
    unfolding l by blast
  from energy_running_total [of "[exSensor, exSensor2]" "\<lambda>_. 0" "exLeachConfig 3" exLeachResult
      exTinyConfig exTinyResult] exTiny_ids exTiny_run
  have b: "energyConsumption (metrics exTinyResult) = runningTotal [1, 2 + 1 / 2 ^ 51, 1, 2 + 1 / 2 ^ 51]"
    unfolding p by blast
  from a b exSmall_ids exTiny_ids exLeach_run3 exTiny_run show ?thesis by blast
qed

text \<open>
  C6 (as stated: for every node list the chain contains every sensor node's id exactly
  once). The chain has one entry per sensor node, so an id that two sensor nodes share
  occurs twice: with the sensor \<open>s1\<close> listed twice the chain is \<open>[s1, s1]\<close>.
\<close>

theorem pegasis_chain_repeats_shared_id:
  "simulatePEGASIS [exBase, exSensor, exSensor] (exPegasisConfig 1) = Inr exTwinResult \<and>
   constructGreedyChain (filter (\<lambda>node. node_type node \<noteq> Base) [exBase, exSensor, exSensor])
     = [''s1'', ''s1''] \<and>
   map chain (rounds_log exTwinResult) = [[''s1'', ''s1'']] \<and>
   count_list [''s1'', ''s1''] (node_id exSensor) = 2"
  by (simp add: exTwin_run)
     (simp add: exBase_def exSensor_def exTwinResult_def nearestIndexOf_def)

text \<open>
  C6, amended: the chain built by \<open>simulatePEGASIS\<close> is a rearrangement of the ids of the
  sensor (non-base) nodes, one entry per sensor node; when the sensor nodes have
  pairwise distinct ids, every sensor node's id occurs in it exactly once; it is built
  once, before the round loop, and every logged round carries that same chain.
\<close>

theorem pegasis_chain_fixed:
  assumes "simulatePEGASIS nodes config = Inr res"
  shows "let sensorNodes = filter (\<lambda>node. node_type node \<noteq> Base) nodes;
             chn = constructGreedyChain sensorNodes
         in mset chn = mset (map node_id sensorNodes) \<and>
            (distinct (map node_id sensorNodes) \<longrightarrow>
               (\<forall>node\<in>set sensorNodes. count_list chn (node_id node) = 1)) \<and>
            (\<forall>r\<in>set (rounds_log res). chain r = chn)"
proof -
  let ?sensors = "filter (\<lambda>node. node_type node \<noteq> Base) nodes"
  let ?chn = "constructGreedyChain ?sensors"
  have m: "mset ?chn = mset (map node_id ?sensors)" by (rule constructGreedyChain_mset)
  have d: "distinct (map node_id ?sensors) \<longrightarrow>
             (\<forall>node\<in>set ?sensors. count_list ?chn (node_id node) = 1)"
    using count_one [OF m] by blast
  from assms obtain s :: "PEGASISRound RunState" where
    run: "forEachE (pegasisStep config nodes (List.find (\<lambda>node. node_type node = Base) nodes) ?chn)
            [1..rounds config] (initState nodes config) = Inr s"
    and res: "res = finish nodes s"
    by (rule simulatePEGASIS_run)
  have "\<forall>r\<in>set (s_rounds s). chain r = ?chn"
  proof (rule forEachE_invariant [OF run, where P = "\<lambda>s. \<forall>r\<in>set (s_rounds s). chain r = ?chn"])
    show "\<forall>r\<in>set (s_rounds (initState nodes config :: PEGASISRound RunState)). chain r = ?chn"
      by (simp add: initState_def)
  next
    fix x and s s' :: "PEGASISRound RunState"
    assume "\<forall>r\<in>set (s_rounds s). chain r = ?chn"
      "pegasisStep config nodes (List.find (\<lambda>node. node_type node = Base) nodes) ?chn x s = Inr s'"
    then show "\<forall>r\<in>set (s_rounds s'). chain r = ?chn" by (rule pegasisStep_chain [rotated])
  qed
  with res have snap: "\<forall>r\<in>set (rounds_log res). chain r = ?chn" by (simp add: finish_def)
  show ?thesis unfolding Let_def using m d snap by (intro conjI)
qed

theorem pegasis_chain_fixed_witness:
  "simulatePEGASIS exField exFieldConfig = Inr exFieldResult \<and>
   constructGreedyChain (filter (\<lambda>node. node_type node \<noteq> Base) exField) = [''a'', ''c'', ''b''] \<and>
   mset [''a'', ''c'', ''b''] = mset (map node_id (filter (\<lambda>node. node_type node \<noteq> Base) exField)) \<and>
   distinct (map node_id (filter (\<lambda>node. node_type node \<noteq> Base) exField)) \<and>
   map (count_list [''a'', ''c'', ''b'']) [node_id exA, node_id exB, node_id exC] = [1, 1, 1] \<and>
   map chain (rounds_log exFieldResult) = [[''a'', ''c'', ''b''], [''a'', ''c'', ''b'']]"
proof -
  let ?sensors = "filter (\<lambda>node. node_type node \<noteq> Base) exField"
  have s: "?sensors = [exA, exB, exC]"
    by (simp add: exField_def exFarBase_def exA_def exB_def exC_def)
  have d: "distinct (map node_id ?sensors)"
    unfolding s by (simp add: exA_def exB_def exC_def)
  from pegasis_chain_fixed [OF exField_run]
  have m: "mset [''a'', ''c'', ''b''] = mset (map node_id ?sensors)"
    and c: "distinct (map node_id ?sensors) \<longrightarrow>
              (\<forall>node\<in>set ?sensors. count_list [''a'', ''c'', ''b''] (node_id node) = 1)"
    and r: "\<forall>r\<in>set (rounds_log exFieldResult). chain r = [''a'', ''c'', ''b'']"
    unfolding Let_def exField_chain by blast+
  from c d have "\<forall>node\<in>set [exA, exB, exC]. count_list [''a'', ''c'', ''b''] (node_id node) = 1"
    unfolding s by blast
  then have k: "map (count_list [''a'', ''c'', ''b'']) [node_id exA, node_id exB, node_id exC] = [1, 1, 1]"
    by simp
  from r have l: "map chain (rounds_log exFieldResult) = [[''a'', ''c'', ''b''], [''a'', ''c'', ''b'']]"
    by (simp add: exFieldResult_def)
  from exField_run exField_chain m d k l show ?thesis by blast
qed





text \<open>
  C8: with non-negative \<open>transmitEnergy\<close>, \<open>receiveEnergy\<close> and \<open>dataSize\<close>, no node's
  remaining energy ever increases. The ledger is observed between rounds: \<open>ls1\<close> is the
  state of the round loop after any rounds \<open>rs1\<close> from the initial state and \<open>ls2\<close> its
  state after any further rounds \<open>rs2\<close>; every node's value in \<open>ls2\<close> is at most its value
  in \<open>ls1\<close>, which is at most \<open>initialEnergy\<close>. A run is the loop over
  \<open>[1..config.rounds]\<close>, and the loop over \<open>rs1 @ rs2\<close> is the loop over \<open>rs1\<close> followed
  by the loop over \<open>rs2\<close> (\<open>forEachE_append\<close>), so \<open>ls1\<close> and \<open>ls2\<close> range over the ledger
  after any two numbers of rounds of a run.
\<close>

theorem energy_never_increases:
  "(costsNonneg lconfig \<and>
    forEachE (leachStep rnd lconfig nodes) rs1 (initLeachState nodes lconfig) = Inr ls1 \<and>
    forEachE (leachStep rnd lconfig nodes) rs2 ls1 = Inr ls2 \<longrightarrow>
      neverIncreases nodes (initialEnergy lconfig) (s_nodeEnergy ls1) (s_nodeEnergy ls2)) \<and>
   (costsNonneg pconfig \<and>
    forEachE (pegasisStep pconfig nodes bs chn) rs1 (initState nodes pconfig) = Inr ps1 \<and>
    forEachE (pegasisStep pconfig nodes bs chn) rs2 ps1 = Inr ps2 \<longrightarrow>
      neverIncreases nodes (initialEnergy pconfig) (s_nodeEnergy ps1) (s_nodeEnergy ps2))"
proof (intro conjI impI)
  assume a: "costsNonneg lconfig \<and>
    forEachE (leachStep rnd lconfig nodes) rs1 (initLeachState nodes lconfig) = Inr ls1 \<and>
    forEachE (leachStep rnd lconfig nodes) rs2 ls1 = Inr ls2"
  then have c: "costsNonneg lconfig" by simp
  from a have r1: "forEachE (leachStep rnd lconfig nodes) rs1 (initLeachState nodes lconfig) = Inr ls1"
    and r2: "forEachE (leachStep rnd lconfig nodes) rs2 ls1 = Inr ls2" by simp_all
  have "ledgerLe (s_nodeEnergy ls1) (s_nodeEnergy (initLeachState nodes lconfig))"
    by (rule forEachE_run_le [OF r1]) (rule leachStep_le [OF c])
  then have 1: "ledgerLe (s_nodeEnergy ls1) (initEnergy nodes (initialEnergy lconfig))"
    by (simp add: initLeachState_def)
  have 2: "ledgerLe (s_nodeEnergy ls2) (s_nodeEnergy ls1)"
    by (rule forEachE_run_le [OF r2]) (rule leachStep_le [OF c])
  from 1 2 show "neverIncreases nodes (initialEnergy lconfig) (s_nodeEnergy ls1) (s_nodeEnergy ls2)"
    by (rule neverIncreasesI)
next
  assume a: "costsNonneg pconfig \<and>
    forEachE (pegasisStep pconfig nodes bs chn) rs1 (initState nodes pconfig) = Inr ps1 \<and>
    forEachE (pegasisStep pconfig nodes bs chn) rs2 ps1 = Inr ps2"
  then have c: "costsNonneg pconfig" by simp
  from a have r1: "forEachE (pegasisStep pconfig nodes bs chn) rs1 (initState nodes pconfig) = Inr ps1"
    and r2: "forEachE (pegasisStep pconfig nodes bs chn) rs2 ps1 = Inr ps2" by simp_all
  have "ledgerLe (s_nodeEnergy ps1) (s_nodeEnergy (initState nodes pconfig :: PEGASISRound RunState))"
    by (rule forEachE_run_le [OF r1]) (rule pegasisStep_le [OF c])
  then have 1: "ledgerLe (s_nodeEnergy ps1) (initEnergy nodes (initialEnergy pconfig))"
    by (simp add: initState_def)
  have 2: "ledgerLe (s_nodeEnergy ps2) (s_nodeEnergy ps1)"
    by (rule forEachE_run_le [OF r2]) (rule pegasisStep_le [OF c])
  from 1 2 show "neverIncreases nodes (initialEnergy pconfig) (s_nodeEnergy ps1) (s_nodeEnergy ps2)"
    by (rule neverIncreasesI)
qed

theorem energy_never_increases_witness:
  "costsNonneg (exLeachConfig 3) \<and>
   forEachE (leachStep (\<lambda>_. 0) (exLeachConfig 3) [exBase, exSensor]) [1]
     (initLeachState [exBase, exSensor] (exLeachConfig 3)) = Inr exLeachState1 \<and>
   forEachE (leachStep (\<lambda>_. 0) (exLeachConfig 3) [exBase, exSensor]) [2] exLeachState1
     = Inr exLeachState2 \<and>
   neverIncreases [exBase, exSensor] (initialEnergy (exLeachConfig 3))
     (s_nodeEnergy exLeachState1) (s_nodeEnergy exLeachState2) \<and>
   costsNonneg (exPegasisConfig 3) \<and>
   forEachE (pegasisStep (exPegasisConfig 3) [exBase, exSensor] (Some exBase) [''s1'']) [1]
     (initState [exBase, exSensor] (exPegasisConfig 3)) = Inr exPegasisState1 \<and>
   forEachE (pegasisStep (exPegasisConfig 3) [exBase, exSensor] (Some exBase) [''s1'']) [2]
     exPegasisState1 = Inr exPegasisState2 \<and>
   neverIncreases [exBase, exSensor] (initialEnergy (exPegasisConfig 3))
     (s_nodeEnergy exPegasisState1) (s_nodeEnergy exPegasisState2)"
proof -
  have c: "costsNonneg (exLeachConfig 3)" "costsNonneg (exPegasisConfig 3)"
    by (simp_all add: costsNonneg_def exLeachConfig_def exPegasisConfig_def)
  from c exLeach_states exPegasis_states
    energy_never_increases [of "exLeachConfig 3" "\<lambda>_. 0" "[exBase, exSensor]" "[1]" exLeachState1
      "[2]" exLeachState2 "exPegasisConfig 3" "Some exBase" "[''s1'']" exPegasisState1 exPegasisState2]
  show ?thesis by blast
qed

text \<open>
  C3 (as stated: every logged LEACH round with \<open>nodesAlive > 0\<close> has a cluster head).
  \<open>nodesAlive\<close> counts the base station, which is never a head and never a fallback
  candidate: on a node list that holds a base station only, round 1 has one node alive
  and no head.
\<close>

theorem leach_base_only_no_heads:
  "simulateLEACH (\<lambda>_. 0) [exBase] (exLeachConfig 1) = Inr exBaseOnlyResult \<and>
   0 < nodesAlive (rounds_log exBaseOnlyResult ! 0) \<and>
   clusterHeads (rounds_log exBaseOnlyResult ! 0) = []"
  by (simp add: exBaseOnly_run) (simp add: exBaseOnlyResult_def)

text \<open>
  C3, amended: for a node list with plain ids that holds at least one non-base node,
  every logged LEACH round with \<open>nodesAlive > 0\<close> has a non-empty cluster-head set. The
  heads a round logs are those left by the fallback after the election, at the ledger
  with which the round starts; none of them is at or below zero there. When the
  election yields no head and some non-base node has energy above zero, the fallback
  makes one such node the sole head; when the election yields a head, the fallback
  changes nothing. Every head of every logged round is the id of a non-base node, so on
  a node list with no non-base node every logged round has an empty head set.
\<close>

theorem leach_heads_nonempty:
  "(simulateLEACH rnd nodes config = Inr res \<longrightarrow>
      (plainIds nodes \<and> (\<exists>node\<in>set nodes. node_type node \<noteq> Base) \<longrightarrow>
         (\<forall>r\<in>set (rounds_log res). 0 < nodesAlive r \<longrightarrow> clusterHeads r \<noteq> [])) \<and>
      (\<forall>r\<in>set (rounds_log res). \<forall>h\<in>set (clusterHeads r).
         \<exists>node\<in>set nodes. node_id node = h \<and> node_type node \<noteq> Base) \<and>
      ((\<forall>node\<in>set nodes. node_type node = Base) \<longrightarrow>
         (\<forall>r\<in>set (rounds_log res). clusterHeads r = []))) \<and>
   (leachStep rnd config nodes rno s = Inr s' \<and> \<not> s_networkDied s \<longrightarrow>
      (\<exists>r. s_rounds s' = s_rounds s @ [r] \<and>
           clusterHeads r = fst (fallbackHead rnd (s_nodeEnergy s) nodes
                                  (electHeads rnd config (s_nodeEnergy s) nodes (s_randomCalls s))) \<and>
           (\<forall>h\<in>set (clusterHeads r). headOK nodes (s_nodeEnergy s) h))) \<and>
   (fst (electHeads rnd config e nodes i) = [] \<and>
    (\<exists>node\<in>set nodes. gt0 e (node_id node) \<and> node_type node \<noteq> Base) \<longrightarrow>
      (\<exists>node\<in>set nodes. gt0 e (node_id node) \<and> node_type node \<noteq> Base \<and>
         fst (fallbackHead rnd e nodes (electHeads rnd config e nodes i)) = [node_id node])) \<and>
   (fst (electHeads rnd config e nodes i) \<noteq> [] \<longrightarrow>
      fallbackHead rnd e nodes (electHeads rnd config e nodes i) = electHeads rnd config e nodes i)"
proof (intro conjI impI)
  assume run: "simulateLEACH rnd nodes config = Inr res"
  from simulateLEACH_heads_nonbase [OF run]
  show nb: "\<forall>r\<in>set (rounds_log res). \<forall>h\<in>set (clusterHeads r).
         \<exists>node\<in>set nodes. node_id node = h \<and> node_type node \<noteq> Base" .
  {
    assume "plainIds nodes \<and> (\<exists>node\<in>set nodes. node_type node \<noteq> Base)"
    then have "\<exists>node\<in>set nodes. node_type node \<noteq> Base" by simp
    from simulateLEACH_heads_nonempty [OF run this]
    show "\<forall>r\<in>set (rounds_log res). 0 < nodesAlive r \<longrightarrow> clusterHeads r \<noteq> []" .
  }
  {
    assume "\<forall>node\<in>set nodes. node_type node = Base"
    with nb show "\<forall>r\<in>set (rounds_log res). clusterHeads r = []"
      by (metis all_not_in_conv set_empty)
  }
next
  assume "leachStep rnd config nodes rno s = Inr s' \<and> \<not> s_networkDied s"
  then show "\<exists>r. s_rounds s' = s_rounds s @ [r] \<and>
           clusterHeads r = fst (fallbackHead rnd (s_nodeEnergy s) nodes
                                  (electHeads rnd config (s_nodeEnergy s) nodes (s_randomCalls s))) \<and>
           (\<forall>h\<in>set (clusterHeads r). headOK nodes (s_nodeEnergy s) h)"
    using leachStep_logs_heads by blast
next
  assume "fst (electHeads rnd config e nodes i) = [] \<and>
    (\<exists>node\<in>set nodes. gt0 e (node_id node) \<and> node_type node \<noteq> Base)"
  then show "\<exists>node\<in>set nodes. gt0 e (node_id node) \<and> node_type node \<noteq> Base \<and>
         fst (fallbackHead rnd e nodes (electHeads rnd config e nodes i)) = [node_id node]"
    using fallbackHead_picks by blast
next
  assume "fst (electHeads rnd config e nodes i) \<noteq> []"
  then show "fallbackHead rnd e nodes (electHeads rnd config e nodes i) = electHeads rnd config e nodes i"
    by (rule fallbackHead_keeps)
qed

theorem leach_heads_nonempty_witness:
  "simulateLEACH (\<lambda>_. 3 / 5) exNodes3 exLeachConfigNever = Inr exFallbackResult \<and>
   plainIds exNodes3 \<and> exSensor2 \<in> set exNodes3 \<and> node_type exSensor2 \<noteq> Base \<and>
   gt0 (initEnergy exNodes3 1) (node_id exSensor2) \<and>
   0 < nodesAlive (rounds_log exFallbackResult ! 0) \<and>
   clusterHeads (rounds_log exFallbackResult ! 0) \<noteq> [] \<and>
   fst (electHeads (\<lambda>_. 3 / 5) exLeachConfigNever (initEnergy exNodes3 1) exNodes3 0) = [] \<and>
   (\<exists>node\<in>set exNodes3. gt0 (initEnergy exNodes3 1) (node_id node) \<and> node_type node \<noteq> Base \<and>
      fst (fallbackHead (\<lambda>_. 3 / 5) (initEnergy exNodes3 1) exNodes3
             (electHeads (\<lambda>_. 3 / 5) exLeachConfigNever (initEnergy exNodes3 1) exNodes3 0))
        = [node_id node]) \<and>
   fst (fallbackHead (\<lambda>_. 3 / 5) (initEnergy exNodes3 1) exNodes3
          (electHeads (\<lambda>_. 3 / 5) exLeachConfigNever (initEnergy exNodes3 1) exNodes3 0)) = [''s2''] \<and>
   clusterHeads (rounds_log exFallbackResult ! 0) = [''s2'']"
proof -
  have n: "exSensor2 \<in> set exNodes3" "node_type exSensor2 \<noteq> Base"
    "gt0 (initEnergy exNodes3 1) (node_id exSensor2)"
    by (simp_all add: exNodes3_def exSensor2_def exBase_def exSensor_def gt0_def initEnergy_def)
  have p: "0 < nodesAlive (rounds_log exFallbackResult ! 0)"
    "rounds_log exFallbackResult ! 0 \<in> set (rounds_log exFallbackResult)"
    "clusterHeads (rounds_log exFallbackResult ! 0) = [''s2'']"
    by (simp_all add: exFallbackResult_def)
  note t = leach_heads_nonempty [where rnd = "\<lambda>_. 3 / 5" and nodes = exNodes3
      and config = exLeachConfigNever and res = exFallbackResult and e = "initEnergy exNodes3 1"
      and i = 0]
  from t exFallback_run(1) exNodes3_ids n
  have "\<forall>r\<in>set (rounds_log exFallbackResult). 0 < nodesAlive r \<longrightarrow> clusterHeads r \<noteq> []"
    by blast
  with p have a: "clusterHeads (rounds_log exFallbackResult ! 0) \<noteq> []" by blast
  from t exFallback_run(2) n
  have b: "\<exists>node\<in>set exNodes3. gt0 (initEnergy exNodes3 1) (node_id node) \<and> node_type node \<noteq> Base \<and>
      fst (fallbackHead (\<lambda>_. 3 / 5) (initEnergy exNodes3 1) exNodes3
             (electHeads (\<lambda>_. 3 / 5) exLeachConfigNever (initEnergy exNodes3 1) exNodes3 0))
        = [node_id node]"
    by blast
  from exFallback_run exNodes3_ids n p a b show ?thesis by blast
qed

text \<open>
  C4 (as stated: a head whose energy was driven to zero or below by reception costs in
  the same round does not transmit to the base station). The head-to-base loop has no
  liveness test. In the three-node network \<open>s1\<close> is at energy \<open>0\<close> after the member
  phase and still pays \<open>1\<close> for an aggregate of size \<open>1\<close>, which is counted.
\<close>

theorem dead_head_still_transmits:
  "memberPhase exLeachConfigHalf exNodes3 [''s1''] exMembers (initEnergy exNodes3 1, [], 0)
     = Inr exDrained \<and>
   le0 (fst exDrained) ''s1'' \<and>
   basePhase exLeachConfigHalf exNodes3 [''s1''] exMembers exDrained
     = Inr ([(''base'', 1), (''s1'', - 1), (''s2'', 0)], [(''s2'', 1), (''s1'', 2)], 2) \<and>
   simulateLEACH exDraws exNodes3 exLeachConfigHalf = Inr exDrainedResult \<and>
   map energyUsage (rounds_log exDrainedResult) = [[(''s2'', 1), (''s1'', 2)]] \<and>
   map dataTransmitted (rounds_log exDrainedResult) = [2]"
  by (simp add: exDrained_eval) (simp add: exDrained_def exDrainedResult_def le0_def)

text \<open>
  C4, amended: in every \<open>simulateLEACH\<close> round every elected cluster head performs the
  head-to-base transmission, whatever its remaining energy. The loop runs \<open>headSend\<close> for
  every head, and for every ledger, also one in which the head is at or below zero,
  \<open>headSend\<close> takes the transmit cost of the aggregate of size
  \<open>dataSize * (0.5 + 0.5 * memberCount)\<close> from the head's energy, adds it to the head's
  usage and adds the aggregate to the round's \<open>dataTransmitted\<close>. Liveness is tested at
  election and at assignment (a node at or below zero is neither elected nor assigned)
  and nowhere in the two cost phases: whether they succeed, and the usage and the data
  they produce, are the same for every ledger.
\<close>

theorem head_to_base_unconditional:
  "(findNode nodes (Some headId) = Some head \<and>
    List.find (\<lambda>n. node_type n = Base) nodes = Some bs \<and> map_of members headId = Some ms \<and>
    headId \<notin> set objectPrototypeMembers \<longrightarrow>
      (let aggregatedDataSize = dataSize config * (0.5 + 0.5 * real (length ms));
           transmitCost = transmitEnergy config * aggregatedDataSize *
                            (1 + 0.2 * calculateDistance (position head) (position bs))
       in \<exists>e' u'.
            headSend config nodes (List.find (\<lambda>n. node_type n = Base) nodes) members headId (e, u, d)
              = Inr (e', u', d + aggregatedDataSize) \<and>
            map_of e' headId = map_option (\<lambda>v. v - transmitCost) (map_of e headId) \<and>
            map_of u' headId = Some ((case map_of u headId of None \<Rightarrow> 0 | Some v \<Rightarrow> v) + transmitCost) \<and>
            (\<forall>k. k \<noteq> headId \<longrightarrow> map_of e' k = map_of e k \<and> map_of u' k = map_of u k))) \<and>
   basePhase config nodes heads members st =
     forEachE (headSend config nodes (List.find (\<lambda>n. node_type n = Base) nodes) members) heads st \<and>
   (basePhase config nodes heads members (e, u, d) = Inr (e', u', d') \<longrightarrow>
      d' = d + (\<Sum>h\<leftarrow>heads. aggregatedSize config (memberCount members h))) \<and>
   (leachPhases config nodes heads members e1 = Inr (e1', u1, d1) \<longrightarrow>
      (\<exists>e2'. leachPhases config nodes heads members e2 = Inr (e2', u1, d1))) \<and>
   (le0 e (node_id node) \<longrightarrow>
      electStep rnd lconfig e node t = t \<and> assignStep nodes e heads node members = Inr members)"
proof (intro conjI impI)
  assume a: "findNode nodes (Some headId) = Some head \<and>
    List.find (\<lambda>n. node_type n = Base) nodes = Some bs \<and> map_of members headId = Some ms \<and>
    headId \<notin> set objectPrototypeMembers"
  define agg where "agg = dataSize config * (0.5 + 0.5 * real (length ms))"
  define c where "c = transmitEnergy config * agg *
                            (1 + 0.2 * calculateDistance (position head) (position bs))"
  from a have "headSend config nodes (List.find (\<lambda>n. node_type n = Base) nodes) members headId (e, u, d)
      = Inr (spend e headId c, charge u headId c, d + agg)"
    by (simp add: headSend_def Let_def aggregatedSize_def agg_def c_def)
  then show "let aggregatedDataSize = dataSize config * (0.5 + 0.5 * real (length ms));
           transmitCost = transmitEnergy config * aggregatedDataSize *
                            (1 + 0.2 * calculateDistance (position head) (position bs))
       in \<exists>e' u'.
            headSend config nodes (List.find (\<lambda>n. node_type n = Base) nodes) members headId (e, u, d)
              = Inr (e', u', d + aggregatedDataSize) \<and>
            map_of e' headId = map_option (\<lambda>v. v - transmitCost) (map_of e headId) \<and>
            map_of u' headId = Some ((case map_of u headId of None \<Rightarrow> 0 | Some v \<Rightarrow> v) + transmitCost) \<and>
            (\<forall>k. k \<noteq> headId \<longrightarrow> map_of e' k = map_of e k \<and> map_of u' k = map_of u k)"
    unfolding Let_def agg_def [symmetric] c_def [symmetric] by (simp add: map_of_spend map_of_charge)
next
  show "basePhase config nodes heads members st =
     forEachE (headSend config nodes (List.find (\<lambda>n. node_type n = Base) nodes) members) heads st"
    by (simp add: basePhase_def)
next
  assume "basePhase config nodes heads members (e, u, d) = Inr (e', u', d')"
  then show "d' = d + (\<Sum>h\<leftarrow>heads. aggregatedSize config (memberCount members h))"
    unfolding basePhase_def by (rule forEachE_headSend_data)
next
  assume "leachPhases config nodes heads members e1 = Inr (e1', u1, d1)"
  then show "\<exists>e2'. leachPhases config nodes heads members e2 = Inr (e2', u1, d1)"
    by (rule leachPhases_indep)
next
  assume "le0 e (node_id node)"
  then show "electStep rnd lconfig e node t = t" by (cases t) (simp add: electStep_def)
next
  assume "le0 e (node_id node)"
  then show "assignStep nodes e heads node members = Inr members" by (simp add: assignStep_def)
qed

theorem head_to_base_unconditional_witness:
  "le0 (fst exDrained) ''s1'' \<and>
   findNode exNodes3 (Some ''s1'') = Some exSensor \<and>
   List.find (\<lambda>n. node_type n = Base) exNodes3 = Some exBase \<and>
   map_of exMembers ''s1'' = Some [''s2''] \<and>
   ''s1'' \<notin> set objectPrototypeMembers \<and>
   (\<exists>e' u'. headSend exLeachConfigHalf exNodes3 (List.find (\<lambda>n. node_type n = Base) exNodes3)
               exMembers ''s1'' exDrained = Inr (e', u', 2) \<and>
            map_of e' ''s1'' = Some (- 1) \<and> map_of u' ''s1'' = Some 2 \<and>
            map_of e' ''s2'' = Some 0 \<and> map_of u' ''s2'' = Some 1) \<and>
   basePhase exLeachConfigHalf exNodes3 [''s1''] exMembers exDrained
     = Inr ([(''base'', 1), (''s1'', - 1), (''s2'', 0)], [(''s2'', 1), (''s1'', 2)], 2) \<and>
   (2::real) = 1 + (\<Sum>h\<leftarrow>[''s1'']. aggregatedSize exLeachConfigHalf (memberCount exMembers h)) \<and>
   leachPhases exLeachConfigHalf exNodes3 [''s1''] exMembers (initEnergy exNodes3 1)
     = Inr ([(''base'', 1), (''s1'', - 1), (''s2'', 0)], [(''s2'', 1), (''s1'', 2)], 2) \<and>
   (\<exists>e2'. leachPhases exLeachConfigHalf exNodes3 [''s1''] exMembers (initEnergy exNodes3 0)
            = Inr (e2', [(''s2'', 1), (''s1'', 2)], 2)) \<and>
   le0 (initEnergy exNodes3 0) (node_id exSensor) \<and>
   electStep (\<lambda>_. 0) exLeachConfigHalf (initEnergy exNodes3 0) exSensor ([], [], 0) = ([], [], 0) \<and>
   assignStep exNodes3 (initEnergy exNodes3 0) [] exSensor [] = Inr []"
proof -
  have h: "le0 (fst exDrained) ''s1''" "findNode exNodes3 (Some ''s1'') = Some exSensor"
    "List.find (\<lambda>n. node_type n = Base) exNodes3 = Some exBase"
    "map_of exMembers ''s1'' = Some [''s2'']" "''s1'' \<notin> set objectPrototypeMembers"
    by (simp_all add: exDrained_def le0_def findNode_def exNodes3_def exBase_def exSensor_def
          exSensor2_def exMembers_def objectPrototypeMembers_def)
  have dead: "le0 (initEnergy exNodes3 0) (node_id exSensor)"
    by (simp add: le0_def initEnergy_def exNodes3_def exBase_def exSensor_def exSensor2_def)
  have st: "(fst exDrained, fst (snd exDrained), snd (snd exDrained)) = exDrained" by simp
  have cost: "dataSize exLeachConfigHalf * (0.5 + 0.5 * real (length [''s2''])) = 1"
    "transmitEnergy exLeachConfigHalf * 1 *
       (1 + 0.2 * calculateDistance (position exSensor) (position exBase)) = 1"
    by (simp_all add: exLeachConfigHalf_def calculateDistance_def exSensor_def exBase_def)
  note t = head_to_base_unconditional [where nodes = exNodes3 and headId = "''s1''" and head = exSensor
      and bs = exBase and members = exMembers and ms = "[''s2'']" and config = exLeachConfigHalf
      and e = "fst exDrained" and u = "fst (snd exDrained)" and d = "snd (snd exDrained)"
      and heads = "[''s1'']" and st = exDrained
      and e' = "[(''base'', 1), (''s1'', - 1), (''s2'', 0)]" and u' = "[(''s2'', 1), (''s1'', 2)]"
      and d' = 2 and ?e1.0 = "initEnergy exNodes3 1"
      and e1' = "[(''base'', 1), (''s1'', - 1), (''s2'', 0)]" and ?u1.0 = "[(''s2'', 1), (''s1'', 2)]"
      and ?d1.0 = 2 and ?e2.0 = "initEnergy exNodes3 0" and rnd = "\<lambda>_. 0"
      and lconfig = exLeachConfigHalf and t = "([], [], 0)"]
  note t2 = head_to_base_unconditional [where e = "initEnergy exNodes3 0" and node = exSensor
      and rnd = "\<lambda>_. 0" and lconfig = exLeachConfigHalf and t = "([], [], 0)"
      and nodes = exNodes3 and heads = "[]" and members = "[]"]
  from t h obtain e' u' where
    send: "headSend exLeachConfigHalf exNodes3 (List.find (\<lambda>n. node_type n = Base) exNodes3)
             exMembers ''s1'' exDrained = Inr (e', u', snd (snd exDrained) + 1)"
    and own: "map_of e' ''s1'' = map_option (\<lambda>v. v - 1) (map_of (fst exDrained) ''s1'')"
      "map_of u' ''s1'' = Some ((case map_of (fst (snd exDrained)) ''s1'' of None \<Rightarrow> 0 | Some v \<Rightarrow> v) + 1)"
    and others: "\<forall>k. k \<noteq> ''s1'' \<longrightarrow> map_of e' k = map_of (fst exDrained) k \<and>
                   map_of u' k = map_of (fst (snd exDrained)) k"
    unfolding Let_def st cost by blast
  from send have a1: "headSend exLeachConfigHalf exNodes3 (List.find (\<lambda>n. node_type n = Base) exNodes3)
             exMembers ''s1'' exDrained = Inr (e', u', 2)"
    by (simp add: exDrained_def)
  from own have a2: "map_of e' ''s1'' = Some (- 1)" "map_of u' ''s1'' = Some 2"
    by (simp_all add: exDrained_def)
  from others have a3: "map_of e' ''s2'' = Some 0" "map_of u' ''s2'' = Some 1"
    by (simp_all add: exDrained_def)
  from t exDrained_eval(2)
  have "(2::real) = snd (snd exDrained)
          + (\<Sum>h\<leftarrow>[''s1'']. aggregatedSize exLeachConfigHalf (memberCount exMembers h))"
    unfolding st by blast
  then have b: "(2::real) = 1 + (\<Sum>h\<leftarrow>[''s1'']. aggregatedSize exLeachConfigHalf (memberCount exMembers h))"
    by (simp add: exDrained_def)
  from t exPhases_eval
  have c: "\<exists>e2'. leachPhases exLeachConfigHalf exNodes3 [''s1''] exMembers (initEnergy exNodes3 0)
            = Inr (e2', [(''s2'', 1), (''s1'', 2)], 2)"
    by blast
  from t2 dead
  have d: "electStep (\<lambda>_. 0) exLeachConfigHalf (initEnergy exNodes3 0) exSensor ([], [], 0) = ([], [], 0)"
    "assignStep exNodes3 (initEnergy exNodes3 0) [] exSensor [] = Inr []"
    by blast+
  from h dead a1 a2 a3 exDrained_eval(2) b exPhases_eval c d show ?thesis by blast
qed




end
